theory Spec2Isabelle
  imports Complex_Main "HOL-Library.Multiset"
begin

section \<open>Sales bonus report: the data model\<close>

text \<open>
  The repository holds two variants of the same program: \<^verbatim>\<open>src/main.js\<close> and a second
  file, \<^verbatim>\<open>part_000\<close>, with the same functions. The second file differs from the first in
  that it also checks the type of the options and of the two strategies, adds a record's
  \<open>total_amount\<close> to the seller's revenue instead of the per-item revenue, rounds the bonus
  when it assigns it, and writes the bonus rule with early returns. One embedding with a
  \<open>version\<close> parameter covers both: every place where the parameter is consulted is a place
  where the two files differ. (The second file also builds the two indexes with
  \<open>Object.fromEntries\<close> instead of \<open>reduce\<close>, which gives the same own keys; the one
  difference, for the key \<open>__proto__\<close>, is described with the lookups.)

  What the embedding takes for granted:
  \<^item> the numbers of the input and the results of the strategies are exact rationals: no
    NaN, no infinities, no binary rounding;
  \<^item> identifiers (\<open>id\<close>, \<open>seller_id\<close>, \<open>sku\<close>) are strings, none of them an array index, so
    that \<open>Object.entries\<close> lists the keys in the order of their first assignment;
  \<^item> \<open>Array.prototype.sort\<close> is stable, as the language requires since ES2019;
  \<^item> the injected strategies are pure functions of their arguments;
  \<^item> the elements of the three input arrays have the fields the program reads.

  The two indexes and every \<open>products_sold\<close> are plain objects, and a plain object is more
  than its own keys: a lookup \<open>obj[k]\<close> that finds no own key goes on to
  \<open>Object.prototype\<close>, so that \<open>constructor\<close>, \<open>toString\<close>, \<open>__proto__\<close> and the other
  names of that object are found in every index although nothing was stored under them. The
  embedding follows these lookups. Where the program then goes on with a value that the
  types used here cannot hold (\<open>NaN\<close> from \<open>undefined * quantity\<close>, a string where a
  quantity is kept, \<open>undefined\<close> where an id is kept), the embedding stops with the outcome
  \<open>NotModelled\<close>. That outcome is not an exception of the program and says nothing about
  what the program does from there on; no property below is drawn from it.
\<close>

datatype version = MainJs | Part000

type_synonym num = rat

datatype error = InvalidInput | MissingOptions | MissingStrategy | TypeError | NotModelled

record seller =
  sel_id :: string
  sel_first_name :: string
  sel_last_name :: string

record product =
  prod_sku :: string
  prod_purchase_price :: num

record item =
  item_sku :: string
  item_quantity :: num
  item_sale_price :: num
  item_discount :: num

record purchase_record =
  rec_seller_id :: string
  rec_total_amount :: num
  rec_items :: "item list"

text \<open>The accumulator built for each seller; \<open>products_sold\<close> is a plain object, kept as
  its list of own properties in insertion order.\<close>

record stats =
  st_id :: string
  st_name :: string
  st_revenue :: num
  st_profit :: num
  st_sales_count :: nat
  st_products_sold :: "(string \<times> num) list"

record top_product =
  tp_sku :: string
  tp_quantity :: num

text \<open>An accumulator after the ranking pass has given it \<open>bonus\<close> and \<open>top_products\<close>.\<close>

record ranked =
  rk_stats :: stats
  rk_bonus :: num
  rk_top_products :: "top_product list"

record report =
  rep_seller_id :: string
  rep_name :: string
  rep_revenue :: num
  rep_profit :: num
  rep_sales_count :: nat
  rep_top_products :: "top_product list"
  rep_bonus :: num

text \<open>What the caller may pass. A field of the dataset is an array or something else; the
  dataset itself may be absent. A property of the options is undefined, a function, or some
  other value, of which only the truthiness matters. The options are absent, a function or
  an object carrying the two properties, or some other value (with \<open>null\<close> among the falsy
  ones: it is rejected by \<open>!options\<close> before \<open>typeof\<close> is asked).\<close>

datatype 'a jsarray = NotArray | Array "'a list"

record dataset =
  sellers :: "seller jsarray"
  products :: "product jsarray"
  purchase_records :: "purchase_record jsarray"

datatype 'f jsprop = Undefined | Value bool | Function 'f

type_synonym revenue_fn = "item \<Rightarrow> product \<Rightarrow> num"
type_synonym bonus_fn = "int \<Rightarrow> int \<Rightarrow> stats \<Rightarrow> num"

record props =
  calculateRevenue :: "revenue_fn jsprop"
  calculateBonus :: "bonus_fn jsprop"

datatype options = OptUndefined | OptValue bool | OptFunction props | OptObject props

section \<open>The two reference strategies\<close>

definition calculateSimpleRevenue :: "item \<Rightarrow> product \<Rightarrow> num" where
  "calculateSimpleRevenue purchase product0 =
     (let multiplier = 1 - item_discount purchase / 100
      in item_sale_price purchase * item_quantity purchase * multiplier)"

definition calculateBonusByProfit :: "version \<Rightarrow> int \<Rightarrow> int \<Rightarrow> stats \<Rightarrow> num" where
  "calculateBonusByProfit v index total' seller =
     (case v of
        MainJs \<Rightarrow>
          (let isFirst = (index = 0);
               isSecondOrThird = (index = 1 \<or> index = 2);
               isLast = (index = total' - 1);
               pct = (if isFirst then 15 else if isSecondOrThird then 10
                      else if isLast then 0 else 5)
           in st_profit seller * (pct / 100))
      | Part000 \<Rightarrow>
          (if index = 0 then st_profit seller * (15 / 100)
           else if index = 1 \<or> index = 2 then st_profit seller * (10 / 100)
           else if index = total' - 1 then 0
           else st_profit seller * (5 / 100)))"

section \<open>Helpers of the language\<close>

text \<open>\<open>+x.toFixed(2)\<close>: the sign is split off, the magnitude goes to the nearest multiple
  of 1/100, the larger one on a tie.\<close>

definition toFixed2 :: "num \<Rightarrow> num" where
  "toFixed2 x = (if x < 0 then - (of_int \<lfloor>(- x) * 100 + 1 / 2\<rfloor> / 100)
                 else of_int \<lfloor>x * 100 + 1 / 2\<rfloor> / 100)"

text \<open>\<open>xs.sort((a, b) => key(b) - key(a))\<close>: a stable sort, largest key first.\<close>

definition sortDesc :: "('a \<Rightarrow> num) \<Rightarrow> 'a list \<Rightarrow> 'a list" where
  "sortDesc key xs = sort_key (\<lambda>x. - key x) xs"

text \<open>\<open>obj[k] = v\<close> on a plain object: an existing property keeps its place, a new one goes
  last.\<close>

fun setProp :: "string \<Rightarrow> num \<Rightarrow> (string \<times> num) list \<Rightarrow> (string \<times> num) list" where
  "setProp k v [] = [(k, v)]"
| "setProp k v (p # ps) = (if fst p = k then (k, v) # ps else p # setProp k v ps)"

text \<open>\<open>xs.forEach(f)\<close> where a call of \<open>f\<close> may throw: the first exception ends the loop.\<close>

fun forEach :: "('a \<Rightarrow> 's \<Rightarrow> error + 's) \<Rightarrow> 'a list \<Rightarrow> 's \<Rightarrow> error + 's" where
  "forEach f [] s = Inr s"
| "forEach f (x # xs) s = (case f x s of Inl e \<Rightarrow> Inl e | Inr s' \<Rightarrow> forEach f xs s')"

text \<open>Calling the value held by a property: anything but a function throws.\<close>

definition call :: "'f jsprop \<Rightarrow> error + 'f" where
  "call p = (case p of Function f \<Rightarrow> Inr f | _ \<Rightarrow> Inl TypeError)"

definition truthy :: "'f jsprop \<Rightarrow> bool" where
  "truthy p = (case p of Undefined \<Rightarrow> False | Value b \<Rightarrow> b | Function _ \<Rightarrow> True)"

definition isFunction :: "'f jsprop \<Rightarrow> bool" where
  "isFunction p = (case p of Function _ \<Rightarrow> True | _ \<Rightarrow> False)"

section \<open>analyzeSalesData\<close>

subsection \<open>Validation\<close>

definition checkData ::
  "dataset option \<Rightarrow> error + (seller list \<times> product list \<times> purchase_record list)" where
  "checkData data =
     (case data of
        None \<Rightarrow> Inl InvalidInput
      | Some d \<Rightarrow>
          (case sellers d of
             NotArray \<Rightarrow> Inl InvalidInput
           | Array ss \<Rightarrow>
               if ss = [] then Inl InvalidInput
               else (case products d of
                  NotArray \<Rightarrow> Inl InvalidInput
                | Array ps \<Rightarrow>
                    if ps = [] then Inl InvalidInput
                    else (case purchase_records d of
                       NotArray \<Rightarrow> Inl InvalidInput
                     | Array rs \<Rightarrow>
                         if rs = [] then Inl InvalidInput else Inr (ss, ps, rs)))))"

text \<open>\<open>!options\<close>, \<open>typeof options === 'object'\<close>, and the destructuring
  \<open>const { calculateRevenue, calculateBonus } = options\<close>, which finds nothing on a
  number, a string or a boolean.\<close>

definition optionsTruthy :: "options \<Rightarrow> bool" where
  "optionsTruthy opts =
     (case opts of OptUndefined \<Rightarrow> False | OptValue b \<Rightarrow> b
      | OptFunction _ \<Rightarrow> True | OptObject _ \<Rightarrow> True)"

definition optionsIsObject :: "options \<Rightarrow> bool" where
  "optionsIsObject opts = (case opts of OptObject _ \<Rightarrow> True | _ \<Rightarrow> False)"

definition destructure :: "options \<Rightarrow> props" where
  "destructure opts =
     (case opts of OptFunction p \<Rightarrow> p | OptObject p \<Rightarrow> p
      | _ \<Rightarrow> \<lparr>calculateRevenue = Undefined, calculateBonus = Undefined\<rparr>)"

definition checkOptions :: "version \<Rightarrow> options \<Rightarrow> error + props" where
  "checkOptions v opts =
     (case v of
        MainJs \<Rightarrow>
          if \<not> optionsTruthy opts then Inl MissingOptions
          else (let p = destructure opts
                in if \<not> truthy (calculateRevenue p) \<or> \<not> truthy (calculateBonus p)
                   then Inl MissingStrategy else Inr p)
      | Part000 \<Rightarrow>
          if \<not> optionsTruthy opts \<or> \<not> optionsIsObject opts then Inl MissingOptions
          else (let p = destructure opts
                in if \<not> truthy (calculateRevenue p) \<or> \<not> truthy (calculateBonus p)
                      \<or> \<not> isFunction (calculateRevenue p) \<or> \<not> isFunction (calculateBonus p)
                   then Inl MissingStrategy else Inr p))"

subsection \<open>Accumulators and indexes\<close>

definition initStats :: "seller \<Rightarrow> stats" where
  "initStats seller =
     \<lparr>st_id = sel_id seller,
      st_name = sel_first_name seller @ '' '' @ sel_last_name seller,
      st_revenue = 0, st_profit = 0, st_sales_count = 0, st_products_sold = []\<rparr>"

text \<open>\<open>sellerIndex\<close> maps an id to an accumulator object. The object is named by its
  position in \<open>sellerStats\<close>, which is not reordered before the last lookup. A later seller
  with the same id replaces the earlier one in the index, as the assignment \<open>acc[s.id] = s\<close>
  and \<open>Object.fromEntries\<close> both do.\<close>

definition buildSellerIndex :: "stats list \<Rightarrow> (string \<rightharpoonup> nat)" where
  "buildSellerIndex sellerStats =
     fold (\<lambda>(i, s) acc. acc(st_id s \<mapsto> i)) (enumerate 0 sellerStats) Map.empty"

definition buildProductIndex :: "product list \<Rightarrow> (string \<rightharpoonup> product)" where
  "buildProductIndex ps = fold (\<lambda>p acc. acc(prod_sku p \<mapsto> p)) ps Map.empty"

subsection \<open>Lookups in a plain object\<close>

text \<open>The properties of \<open>Object.prototype\<close>. Each holds a function, except \<open>__proto__\<close>,
  an accessor whose getter returns the prototype of the object asked, \<open>Object.prototype\<close>
  itself for a plain object. All these values are truthy.\<close>

definition objectPrototypeNames :: "string list" where
  "objectPrototypeNames =
     [''constructor'', ''__defineGetter__'', ''__defineSetter__'', ''hasOwnProperty'',
      ''__lookupGetter__'', ''__lookupSetter__'', ''isPrototypeOf'', ''propertyIsEnumerable'',
      ''toString'', ''valueOf'', ''__proto__'', ''toLocaleString'']"

definition statsFieldNames :: "string list" where
  "statsFieldNames =
     [''id'', ''name'', ''revenue'', ''profit'', ''sales_count'', ''products_sold'']"

text \<open>What \<open>index[k]\<close> gives: the value stored under the own key \<open>k\<close>; or the built-in object
  that the name \<open>k\<close> inherits from \<open>Object.prototype\<close>, which is truthy, so that the guard
  \<open>if (!seller) return\<close> or \<open>if (!product) return\<close> does not fire; or \<open>undefined\<close>.

  The two files build their indexes differently. \<open>Object.fromEntries\<close> defines every key
  as an own property. The assignment \<open>acc[k] = x\<close> of \<^verbatim>\<open>src/main.js\<close> does so too, except
  for \<open>k = '__proto__'\<close>, where it calls the setter of the accessor and makes \<open>x\<close> the
  prototype of the index. A later lookup of \<open>__proto__\<close> still gives \<open>x\<close>, so the key is
  kept in the map of own keys; but a name that is not an own key is then looked up in \<open>x\<close>
  first. For the seller index \<open>x\<close> is an accumulator, with the six properties of
  \<open>statsFieldNames\<close>, and a lookup of one of these names gives a string, a number or the
  \<open>products_sold\<close> object. For the product index \<open>x\<close> is a product of the input, whose
  properties the record \<open>product\<close> does not list in full. These lookups are \<open>Unclear\<close>: the
  embedding does not follow them.\<close>

datatype 'v found = Own 'v | Inherited string | Absent | Unclear

definition lookupSeller :: "version \<Rightarrow> (string \<rightharpoonup> 'v) \<Rightarrow> string \<Rightarrow> 'v found" where
  "lookupSeller v sellerIndex k =
     (case sellerIndex k of
        Some s \<Rightarrow> Own s
      | None \<Rightarrow>
          if v = MainJs \<and> sellerIndex ''__proto__'' \<noteq> None \<and> k \<in> set statsFieldNames
          then Unclear
          else if k \<in> set objectPrototypeNames then Inherited k
          else Absent)"

definition lookupProduct :: "version \<Rightarrow> (string \<rightharpoonup> 'v) \<Rightarrow> string \<Rightarrow> 'v found" where
  "lookupProduct v productIndex k =
     (case productIndex k of
        Some p \<Rightarrow> Own p
      | None \<Rightarrow>
          if v = MainJs \<and> productIndex ''__proto__'' \<noteq> None then Unclear
          else if k \<in> set objectPrototypeNames then Inherited k
          else Absent)"

subsection \<open>Aggregation\<close>

text \<open>\<open>if (!sold[sku]) sold[sku] = 0; sold[sku] += quantity\<close> on the plain object
  \<open>products_sold\<close>. A missing property and a property holding 0 are both falsy. After the
  first statement the property exists, so the \<open>None\<close> branch of the second lookup is never
  taken.

  When \<open>sku\<close> is not an own key but a name inherited from \<open>Object.prototype\<close>, the value read
  is truthy and nothing is initialised. For \<open>__proto__\<close> the sum is a string that the setter
  of the accessor ignores, and \<open>products_sold\<close> stays as it is. For the other names the sum
  of a function and a number is a string, which is stored as the quantity: the result is
  \<open>None\<close>, there being no such quantity among the rationals.\<close>

definition addQuantity ::
  "string \<Rightarrow> num \<Rightarrow> (string \<times> num) list \<Rightarrow> (string \<times> num) list option" where
  "addQuantity sku quantity sold =
     (if map_of sold sku = None \<and> sku = ''__proto__'' then Some sold
      else if map_of sold sku = None \<and> sku \<in> set objectPrototypeNames then None
      else
        (let sold1 = (case map_of sold sku of
                        None \<Rightarrow> setProp sku 0 sold
                      | Some q \<Rightarrow> if q = 0 then setProp sku 0 sold else sold)
         in case map_of sold1 sku of
              None \<Rightarrow> Some sold1
            | Some q \<Rightarrow> Some (setProp sku (q + quantity) sold1)))"

text \<open>The body of the inner loop. When the sku is found as an inherited name, \<open>product\<close> is
  a built-in object without a \<open>purchase_price\<close>: the strategy is called, the cost is \<open>NaN\<close>
  and so is the seller's profit from then on. The third argument of \<open>processItem\<close> is the
  accumulator of the record's seller.\<close>

definition processItem ::
  "version \<Rightarrow> revenue_fn jsprop \<Rightarrow> (string \<rightharpoonup> product) \<Rightarrow> item \<Rightarrow> stats \<Rightarrow> error + stats" where
  "processItem v calcRevenue productIndex item seller =
     (case lookupProduct v productIndex (item_sku item) of
        Absent \<Rightarrow> Inr seller
      | Unclear \<Rightarrow> Inl NotModelled
      | Inherited n \<Rightarrow>
          (case call calcRevenue of
             Inl e \<Rightarrow> Inl e
           | Inr f \<Rightarrow> Inl NotModelled)
      | Own product \<Rightarrow>
          (case call calcRevenue of
             Inl e \<Rightarrow> Inl e
           | Inr f \<Rightarrow>
               let revenueItem = f item product;
                   cost = prod_purchase_price product * item_quantity item
               in (case addQuantity (item_sku item) (item_quantity item)
                          (st_products_sold seller) of
                     None \<Rightarrow> Inl NotModelled
                   | Some sold \<Rightarrow>
                       Inr (seller
                         \<lparr>st_revenue := (case v of
                                          MainJs \<Rightarrow> st_revenue seller + revenueItem
                                        | Part000 \<Rightarrow> st_revenue seller),
                          st_profit := st_profit seller + (revenueItem - cost),
                          st_products_sold := sold\<rparr>))))"

text \<open>The body of the inner loop when \<open>seller\<close> is a built-in object, found under an
  inherited name. An item whose sku is not found is skipped. For an item whose sku is found,
  as an own key or as an inherited name, the strategy is called, the sums are assigned to
  properties of the built-in object, and \<open>seller.products_sold[item.sku]\<close> throws, a
  built-in object having no \<open>products_sold\<close>. No accumulator is touched, and the state \<open>s\<close>
  of the accumulators is passed through.\<close>

definition processItemOfBuiltin ::
  "version \<Rightarrow> revenue_fn jsprop \<Rightarrow> (string \<rightharpoonup> product) \<Rightarrow> item \<Rightarrow> 's \<Rightarrow> error + 's" where
  "processItemOfBuiltin v calcRevenue productIndex item s =
     (case lookupProduct v productIndex (item_sku item) of
        Absent \<Rightarrow> Inr s
      | Unclear \<Rightarrow> Inl NotModelled
      | Inherited n \<Rightarrow>
          (case call calcRevenue of Inl e \<Rightarrow> Inl e | Inr f \<Rightarrow> Inl TypeError)
      | Own product \<Rightarrow>
          (case call calcRevenue of Inl e \<Rightarrow> Inl e | Inr f \<Rightarrow> Inl TypeError))"

text \<open>The body of the outer loop. When \<open>record.seller_id\<close> is found as an inherited name,
  the guard does not fire: the count of sales and, in the second file, the record's total
  are added to properties of the built-in object, and the items are gone through.\<close>

definition processRecord ::
  "version \<Rightarrow> revenue_fn jsprop \<Rightarrow> (string \<rightharpoonup> nat) \<Rightarrow> (string \<rightharpoonup> product) \<Rightarrow>
   purchase_record \<Rightarrow> stats list \<Rightarrow> error + stats list" where
  "processRecord v calcRevenue sellerIndex productIndex rcd sellerStats =
     (case lookupSeller v sellerIndex (rec_seller_id rcd) of
        Absent \<Rightarrow> Inr sellerStats
      | Unclear \<Rightarrow> Inl NotModelled
      | Inherited n \<Rightarrow>
          forEach (processItemOfBuiltin v calcRevenue productIndex) (rec_items rcd) sellerStats
      | Own a \<Rightarrow>
          let seller = sellerStats ! a;
              seller1 = seller\<lparr>st_sales_count := st_sales_count seller + 1\<rparr>;
              seller2 = (case v of
                           MainJs \<Rightarrow> seller1
                         | Part000 \<Rightarrow>
                             seller1\<lparr>st_revenue := st_revenue seller1 + rec_total_amount rcd\<rparr>)
          in (case forEach (processItem v calcRevenue productIndex) (rec_items rcd) seller2 of
                Inl e \<Rightarrow> Inl e
              | Inr seller3 \<Rightarrow> Inr (sellerStats[a := seller3])))"

definition aggregate ::
  "version \<Rightarrow> revenue_fn jsprop \<Rightarrow> seller list \<Rightarrow> product list \<Rightarrow> purchase_record list \<Rightarrow>
   error + stats list" where
  "aggregate v calcRevenue ss ps rs =
     (let sellerStats = map initStats ss;
          sellerIndex = buildSellerIndex sellerStats;
          productIndex = buildProductIndex ps
      in forEach (processRecord v calcRevenue sellerIndex productIndex) rs sellerStats)"

subsection \<open>Ranking and report\<close>

definition topProducts :: "stats \<Rightarrow> top_product list" where
  "topProducts seller =
     take 10 (sortDesc tp_quantity
       (map (\<lambda>(sku, quantity). \<lparr>tp_sku = sku, tp_quantity = quantity\<rparr>)
          (st_products_sold seller)))"

definition assignBonus ::
  "version \<Rightarrow> bonus_fn jsprop \<Rightarrow> nat \<Rightarrow> nat \<times> stats \<Rightarrow> error + ranked" where
  "assignBonus v calcBonus total' is =
     (case call calcBonus of
        Inl e \<Rightarrow> Inl e
      | Inr f \<Rightarrow>
          let index = fst is; seller = snd is;
              rawBonus = f (int index) (int total') seller
          in Inr \<lparr>rk_stats = seller,
                  rk_bonus = (case v of MainJs \<Rightarrow> rawBonus | Part000 \<Rightarrow> toFixed2 rawBonus),
                  rk_top_products = topProducts seller\<rparr>)"

fun mapE :: "('a \<Rightarrow> error + 'b) \<Rightarrow> 'a list \<Rightarrow> error + 'b list" where
  "mapE f [] = Inr []"
| "mapE f (x # xs) =
     (case f x of
        Inl e \<Rightarrow> Inl e
      | Inr y \<Rightarrow> (case mapE f xs of Inl e \<Rightarrow> Inl e | Inr ys \<Rightarrow> Inr (y # ys)))"

definition rankSellers :: "version \<Rightarrow> bonus_fn jsprop \<Rightarrow> stats list \<Rightarrow> error + ranked list" where
  "rankSellers v calcBonus sellerStats =
     (let sorted = sortDesc st_profit sellerStats
      in mapE (assignBonus v calcBonus (length sorted)) (enumerate 0 sorted))"

definition buildReport :: "ranked \<Rightarrow> report" where
  "buildReport s =
     \<lparr>rep_seller_id = st_id (rk_stats s),
      rep_name = st_name (rk_stats s),
      rep_revenue = toFixed2 (st_revenue (rk_stats s)),
      rep_profit = toFixed2 (st_profit (rk_stats s)),
      rep_sales_count = st_sales_count (rk_stats s),
      rep_top_products = rk_top_products s,
      rep_bonus = toFixed2 (rk_bonus s)\<rparr>"

definition analyzeSalesData :: "version \<Rightarrow> dataset option \<Rightarrow> options \<Rightarrow> error + report list" where
  "analyzeSalesData v data opts =
     (case checkData data of
        Inl e \<Rightarrow> Inl e
      | Inr (ss, ps, rs) \<Rightarrow>
          (case checkOptions v opts of
             Inl e \<Rightarrow> Inl e
           | Inr p \<Rightarrow>
               (case aggregate v (calculateRevenue p) ss ps rs of
                  Inl e \<Rightarrow> Inl e
                | Inr sellerStats \<Rightarrow>
                    (case rankSellers v (calculateBonus p) sellerStats of
                       Inl e \<Rightarrow> Inl e
                     | Inr rankedStats \<Rightarrow> Inr (map buildReport rankedStats)))))"

section \<open>The same program over an explicit store\<close>

text \<open>
  Objects are cells of a store and are named by their address. The dataset object, its
  three arrays, the sellers, products, purchase records, the arrays of items and the items
  are cells that exist before the call; an object literal evaluated by the call takes the
  next free address. Every assignment to a property of an object is an update of the store
  at the address the program has computed for that object, so whether the call writes to an
  object of its input is a question about these definitions and not settled by their types.
  Arrays and plain objects that the call creates and never shares (\<open>sellerStats\<close>, the two
  indexes, the arrays behind \<open>top_products\<close>, the report) stay local values.

  The built-in objects are cells as well, since a lookup in an index may return one of them
  and the program then assigns to its properties: \<open>BuiltinCell n ws\<close> is the object that the
  inherited name \<open>n\<close> stands for (\<open>Object.prototype\<close> for \<open>__proto__\<close>, the function
  \<open>Object\<close> for \<open>constructor\<close>, and so on), and \<open>ws\<close> lists the properties the program has
  assigned on it. Every value the program assigns there is \<open>NaN\<close> (\<open>undefined + 1\<close>,
  \<open>undefined + total_amount\<close>), so the names suffice.

  An element of an input array that is not a cell of the expected kind has none of the
  fields the program reads; the program would go on with \<open>undefined\<close>, and the embedding
  stops with \<open>NotModelled\<close>, as it does when a store holds no cell for a built-in object.
  On an exception the store is the one at the moment of the throw.
\<close>

type_synonym addr = nat

datatype cell =
    DataCell "addr option" "addr option" "addr option"
  | ArrayCell "addr list"
  | SellerCell seller
  | ProductCell product
  | RecordCell string num "addr option"
  | ItemCell item
  | StatsCell stats "num option" "top_product list option"
  | BuiltinCell string "string list"

type_synonym store = "cell list"

definition load :: "store \<Rightarrow> addr \<Rightarrow> cell option" where
  "load h a = (if a < length h then Some (h ! a) else None)"

text \<open>\<open>Array.isArray(x)\<close> for the value \<open>x\<close> of a property, and the elements if so.\<close>

definition loadArray :: "store \<Rightarrow> addr option \<Rightarrow> addr list option" where
  "loadArray h x =
     (case x of
        None \<Rightarrow> None
      | Some a \<Rightarrow> (case load h a of Some (ArrayCell xs) \<Rightarrow> Some xs | _ \<Rightarrow> None))"

definition checkData_h ::
  "store \<Rightarrow> addr option \<Rightarrow> error + (addr option \<times> addr option \<times> addr option)" where
  "checkData_h h data =
     (case data of
        None \<Rightarrow> Inl InvalidInput
      | Some d \<Rightarrow>
          (case load h d of
             Some (DataCell s p r) \<Rightarrow>
               (case loadArray h s of
                  None \<Rightarrow> Inl InvalidInput
                | Some ss \<Rightarrow>
                    if ss = [] then Inl InvalidInput
                    else (case loadArray h p of
                       None \<Rightarrow> Inl InvalidInput
                     | Some ps \<Rightarrow>
                         if ps = [] then Inl InvalidInput
                         else (case loadArray h r of
                            None \<Rightarrow> Inl InvalidInput
                          | Some rs \<Rightarrow>
                              if rs = [] then Inl InvalidInput else Inr (s, p, r))))
           | _ \<Rightarrow> Inl InvalidInput))"

text \<open>The built-in object that an inherited name stands for, and the assignment
  \<open>obj.p += x\<close> on a built-in object \<open>obj\<close>, which leaves \<open>NaN\<close> in its property \<open>p\<close>.\<close>

definition isBuiltin :: "string \<Rightarrow> cell \<Rightarrow> bool" where
  "isBuiltin n c = (case c of BuiltinCell m ws \<Rightarrow> m = n | _ \<Rightarrow> False)"

definition builtinAt :: "store \<Rightarrow> string \<Rightarrow> addr option" where
  "builtinAt h n = find (\<lambda>a. isBuiltin n (h ! a)) [0..<length h]"

definition assignNaN :: "addr \<Rightarrow> string \<Rightarrow> store \<Rightarrow> store" where
  "assignNaN a p h =
     (case load h a of
        Some (BuiltinCell n ws) \<Rightarrow> h[a := BuiltinCell n (if p \<in> set ws then ws else ws @ [p])]
      | _ \<Rightarrow> h)"

text \<open>\<open>data.sellers.map(seller => ({ ... }))\<close>: one new object for each seller.\<close>

fun createStats :: "addr list \<Rightarrow> store \<Rightarrow> (error + addr list) \<times> store" where
  "createStats [] h = (Inr [], h)"
| "createStats (a # as) h =
     (case load h a of
        Some (SellerCell seller) \<Rightarrow>
          (case createStats as (h @ [StatsCell (initStats seller) None None]) of
             (Inl e, h') \<Rightarrow> (Inl e, h')
           | (Inr sellerStats, h') \<Rightarrow> (Inr (length h # sellerStats), h'))
      | _ \<Rightarrow> (Inl NotModelled, h))"

fun buildSellerIndex_h :: "store \<Rightarrow> addr list \<Rightarrow> (string \<rightharpoonup> addr) \<Rightarrow> (string \<rightharpoonup> addr)" where
  "buildSellerIndex_h h [] acc = acc"
| "buildSellerIndex_h h (a # as) acc =
     (case load h a of
        Some (StatsCell s b t) \<Rightarrow> buildSellerIndex_h h as (acc(st_id s \<mapsto> a))
      | _ \<Rightarrow> buildSellerIndex_h h as acc)"

fun buildProductIndex_h ::
  "store \<Rightarrow> addr list \<Rightarrow> (string \<rightharpoonup> addr) \<Rightarrow> error + (string \<rightharpoonup> addr)" where
  "buildProductIndex_h h [] acc = Inr acc"
| "buildProductIndex_h h (a # as) acc =
     (case load h a of
        Some (ProductCell p) \<Rightarrow> buildProductIndex_h h as (acc(prod_sku p \<mapsto> a))
      | _ \<Rightarrow> Inl NotModelled)"

fun forEach_h ::
  "('a \<Rightarrow> store \<Rightarrow> error option \<times> store) \<Rightarrow> 'a list \<Rightarrow> store \<Rightarrow> error option \<times> store" where
  "forEach_h f [] h = (None, h)"
| "forEach_h f (x # xs) h =
     (case f x h of (Some e, h') \<Rightarrow> (Some e, h') | (None, h') \<Rightarrow> forEach_h f xs h')"

definition processItem_h ::
  "version \<Rightarrow> revenue_fn jsprop \<Rightarrow> (string \<rightharpoonup> addr) \<Rightarrow> addr \<Rightarrow> addr \<Rightarrow> store \<Rightarrow>
   error option \<times> store" where
  "processItem_h v calcRevenue productIndex sellerAddr itemAddr h =
     (case load h itemAddr of
        Some (ItemCell item) \<Rightarrow>
          (case lookupProduct v productIndex (item_sku item) of
             Absent \<Rightarrow> (None, h)
           | Unclear \<Rightarrow> (Some NotModelled, h)
           | Inherited n \<Rightarrow>
               (case call calcRevenue of
                  Inl e \<Rightarrow> (Some e, h)
                | Inr f \<Rightarrow> (Some NotModelled, h))
           | Own productAddr \<Rightarrow>
               (case load h productAddr of
                  Some (ProductCell product) \<Rightarrow>
                    (case call calcRevenue of
                       Inl e \<Rightarrow> (Some e, h)
                     | Inr f \<Rightarrow>
                         (case load h sellerAddr of
                            Some (StatsCell seller b t) \<Rightarrow>
                              let revenueItem = f item product;
                                  cost = prod_purchase_price product * item_quantity item
                              in (case addQuantity (item_sku item) (item_quantity item)
                                         (st_products_sold seller) of
                                    None \<Rightarrow> (Some NotModelled, h)
                                  | Some sold \<Rightarrow>
                                      (None, h[sellerAddr := StatsCell (seller
                                         \<lparr>st_revenue := (case v of
                                              MainJs \<Rightarrow> st_revenue seller + revenueItem
                                            | Part000 \<Rightarrow> st_revenue seller),
                                          st_profit := st_profit seller + (revenueItem - cost),
                                          st_products_sold := sold\<rparr>) b t]))
                          | _ \<Rightarrow> (Some NotModelled, h)))
                | _ \<Rightarrow> (Some NotModelled, h)))
      | _ \<Rightarrow> (Some NotModelled, h))"

text \<open>The body of the inner loop when \<open>seller\<close> is the built-in object at \<open>builtinAddr\<close>.
  For an item whose sku is found, \<^verbatim>\<open>src/main.js\<close> assigns to \<open>seller.revenue\<close> and
  \<open>seller.profit\<close>, the second file to \<open>seller.profit\<close>, and then
  \<open>seller.products_sold[item.sku]\<close> throws.\<close>

definition processItemOfBuiltin_h ::
  "version \<Rightarrow> revenue_fn jsprop \<Rightarrow> (string \<rightharpoonup> addr) \<Rightarrow> addr \<Rightarrow> addr \<Rightarrow> store \<Rightarrow>
   error option \<times> store" where
  "processItemOfBuiltin_h v calcRevenue productIndex builtinAddr itemAddr h =
     (case load h itemAddr of
        Some (ItemCell item) \<Rightarrow>
          (let thrown =
             (case call calcRevenue of
                Inl e \<Rightarrow> (Some e, h)
              | Inr f \<Rightarrow>
                  (Some TypeError,
                   (case v of
                      MainJs \<Rightarrow>
                        assignNaN builtinAddr ''profit'' (assignNaN builtinAddr ''revenue'' h)
                    | Part000 \<Rightarrow> assignNaN builtinAddr ''profit'' h)))
           in case lookupProduct v productIndex (item_sku item) of
                Absent \<Rightarrow> (None, h)
              | Unclear \<Rightarrow> (Some NotModelled, h)
              | Inherited n \<Rightarrow> thrown
              | Own productAddr \<Rightarrow> thrown)
      | _ \<Rightarrow> (Some NotModelled, h))"

definition processRecord_h ::
  "version \<Rightarrow> revenue_fn jsprop \<Rightarrow> (string \<rightharpoonup> addr) \<Rightarrow> (string \<rightharpoonup> addr) \<Rightarrow> addr \<Rightarrow> store \<Rightarrow>
   error option \<times> store" where
  "processRecord_h v calcRevenue sellerIndex productIndex recordAddr h =
     (case load h recordAddr of
        Some (RecordCell seller_id total_amount items) \<Rightarrow>
          (case lookupSeller v sellerIndex seller_id of
             Absent \<Rightarrow> (None, h)
           | Unclear \<Rightarrow> (Some NotModelled, h)
           | Inherited n \<Rightarrow>
               (case builtinAt h n of
                  None \<Rightarrow> (Some NotModelled, h)
                | Some builtinAddr \<Rightarrow>
                    let h1 = assignNaN builtinAddr ''sales_count'' h;
                        h2 = (case v of
                                MainJs \<Rightarrow> h1
                              | Part000 \<Rightarrow> assignNaN builtinAddr ''revenue'' h1)
                    in (case loadArray h2 items of
                          None \<Rightarrow> (Some TypeError, h2)
                        | Some itemAddrs \<Rightarrow>
                            forEach_h
                              (processItemOfBuiltin_h v calcRevenue productIndex builtinAddr)
                              itemAddrs h2))
           | Own sellerAddr \<Rightarrow>
               (case load h sellerAddr of
                  Some (StatsCell seller b t) \<Rightarrow>
                    let seller1 = seller\<lparr>st_sales_count := st_sales_count seller + 1\<rparr>;
                        seller2 = (case v of
                                     MainJs \<Rightarrow> seller1
                                   | Part000 \<Rightarrow>
                                       seller1\<lparr>st_revenue := st_revenue seller1 + total_amount\<rparr>);
                        h1 = h[sellerAddr := StatsCell seller2 b t]
                    in (case loadArray h1 items of
                          None \<Rightarrow> (Some TypeError, h1)
                        | Some itemAddrs \<Rightarrow>
                            forEach_h (processItem_h v calcRevenue productIndex sellerAddr)
                              itemAddrs h1)
                | _ \<Rightarrow> (Some NotModelled, h)))
      | _ \<Rightarrow> (Some NotModelled, h))"

definition profitAt :: "store \<Rightarrow> addr \<Rightarrow> num" where
  "profitAt h a = (case load h a of Some (StatsCell s b t) \<Rightarrow> st_profit s | _ \<Rightarrow> 0)"

definition assignBonus_h ::
  "version \<Rightarrow> bonus_fn jsprop \<Rightarrow> nat \<Rightarrow> nat \<times> addr \<Rightarrow> store \<Rightarrow> error option \<times> store" where
  "assignBonus_h v calcBonus total' ia h =
     (case call calcBonus of
        Inl e \<Rightarrow> (Some e, h)
      | Inr f \<Rightarrow>
          (case load h (snd ia) of
             Some (StatsCell seller b t) \<Rightarrow>
               let rawBonus = f (int (fst ia)) (int total') seller
               in (None, h[snd ia := StatsCell seller
                     (Some (case v of MainJs \<Rightarrow> rawBonus | Part000 \<Rightarrow> toFixed2 rawBonus))
                     (Some (topProducts seller))])
           | _ \<Rightarrow> (Some TypeError, h)))"

definition buildReport_h :: "store \<Rightarrow> addr \<Rightarrow> error + report" where
  "buildReport_h h a =
     (case load h a of
        Some (StatsCell s (Some bonus) (Some top_products)) \<Rightarrow>
          Inr (buildReport \<lparr>rk_stats = s, rk_bonus = bonus, rk_top_products = top_products\<rparr>)
      | _ \<Rightarrow> Inl TypeError)"

definition aggregate_h ::
  "version \<Rightarrow> revenue_fn jsprop \<Rightarrow> addr list \<Rightarrow> addr option \<Rightarrow> addr option \<Rightarrow> store \<Rightarrow>
   error option \<times> store" where
  "aggregate_h v calcRevenue sellerStats p r h =
     (let sellerIndex = buildSellerIndex_h h sellerStats Map.empty
      in case loadArray h p of
           None \<Rightarrow> (Some TypeError, h)
         | Some productAddrs \<Rightarrow>
             (case buildProductIndex_h h productAddrs Map.empty of
                Inl e \<Rightarrow> (Some e, h)
              | Inr productIndex \<Rightarrow>
                  (case loadArray h r of
                     None \<Rightarrow> (Some TypeError, h)
                   | Some recordAddrs \<Rightarrow>
                       forEach_h (processRecord_h v calcRevenue sellerIndex productIndex)
                         recordAddrs h)))"

definition rankSellers_h ::
  "version \<Rightarrow> bonus_fn jsprop \<Rightarrow> addr list \<Rightarrow> store \<Rightarrow> (error + report list) \<times> store" where
  "rankSellers_h v calcBonus sellerStats h =
     (let sorted = sortDesc (profitAt h) sellerStats
      in case forEach_h (assignBonus_h v calcBonus (length sorted)) (enumerate 0 sorted) h of
           (Some e, h') \<Rightarrow> (Inl e, h')
         | (None, h') \<Rightarrow>
             (case mapE (buildReport_h h') sorted of
                Inl e \<Rightarrow> (Inl e, h')
              | Inr rep \<Rightarrow> (Inr rep, h')))"

definition analyzeSalesData_h ::
  "version \<Rightarrow> store \<Rightarrow> addr option \<Rightarrow> options \<Rightarrow> (error + report list) \<times> store" where
  "analyzeSalesData_h v h data opts =
     (case checkData_h h data of
        Inl e \<Rightarrow> (Inl e, h)
      | Inr (s, p, r) \<Rightarrow>
          (case checkOptions v opts of
             Inl e \<Rightarrow> (Inl e, h)
           | Inr strategies \<Rightarrow>
               (case loadArray h s of
                  None \<Rightarrow> (Inl TypeError, h)
                | Some sellerAddrs \<Rightarrow>
                    (case createStats sellerAddrs h of
                       (Inl e, h1) \<Rightarrow> (Inl e, h1)
                     | (Inr sellerStats, h1) \<Rightarrow>
                         (case aggregate_h v (calculateRevenue strategies) sellerStats p r h1 of
                            (Some e, h2) \<Rightarrow> (Inl e, h2)
                          | (None, h2) \<Rightarrow>
                              rankSellers_h v (calculateBonus strategies) sellerStats h2)))))"

text \<open>What the validation is meant to accept, in the words of the contract: the dataset is
  present and each of its three collections is a non-empty array.\<close>

definition nonEmptyArray :: "store \<Rightarrow> addr option \<Rightarrow> bool" where
  "nonEmptyArray h x = (case loadArray h x of None \<Rightarrow> False | Some xs \<Rightarrow> xs \<noteq> [])"

definition validDataset :: "store \<Rightarrow> addr option \<Rightarrow> bool" where
  "validDataset h data =
     (case data of
        None \<Rightarrow> False
      | Some d \<Rightarrow>
          (case load h d of
             Some (DataCell s p r) \<Rightarrow>
               nonEmptyArray h s \<and> nonEmptyArray h p \<and> nonEmptyArray h r
           | _ \<Rightarrow> False))"

text \<open>What a store holds, read back as values: the dataset as the first embedding takes it.
  The reading is undefined (\<open>None\<close>) when an array holds a reference to something that is
  not a seller, a product, a purchase record with an array of items, or an item.\<close>

definition absSeller :: "store \<Rightarrow> addr \<Rightarrow> seller option" where
  "absSeller h a = (case load h a of Some (SellerCell s) \<Rightarrow> Some s | _ \<Rightarrow> None)"

definition absProduct :: "store \<Rightarrow> addr \<Rightarrow> product option" where
  "absProduct h a = (case load h a of Some (ProductCell p) \<Rightarrow> Some p | _ \<Rightarrow> None)"

definition absItem :: "store \<Rightarrow> addr \<Rightarrow> item option" where
  "absItem h a = (case load h a of Some (ItemCell i) \<Rightarrow> Some i | _ \<Rightarrow> None)"

definition absItems :: "store \<Rightarrow> addr option \<Rightarrow> item list option" where
  "absItems h x =
     (case loadArray h x of None \<Rightarrow> None | Some as \<Rightarrow> those (map (absItem h) as))"

definition absRecord :: "store \<Rightarrow> addr \<Rightarrow> purchase_record option" where
  "absRecord h a =
     (case load h a of
        Some (RecordCell seller_id total_amount items) \<Rightarrow>
          (case absItems h items of
             None \<Rightarrow> None
           | Some its \<Rightarrow>
               Some \<lparr>rec_seller_id = seller_id, rec_total_amount = total_amount,
                     rec_items = its\<rparr>)
      | _ \<Rightarrow> None)"

definition absArray :: "(store \<Rightarrow> addr \<Rightarrow> 'a option) \<Rightarrow> store \<Rightarrow> addr option \<Rightarrow> 'a jsarray option" where
  "absArray f h x =
     (case loadArray h x of
        None \<Rightarrow> Some NotArray
      | Some as \<Rightarrow> (case those (map (f h) as) of None \<Rightarrow> None | Some xs \<Rightarrow> Some (Array xs)))"

definition absData :: "store \<Rightarrow> addr option \<Rightarrow> dataset option option" where
  "absData h data =
     (case data of
        None \<Rightarrow> Some None
      | Some d \<Rightarrow>
          (case load h d of
             Some (DataCell s p r) \<Rightarrow>
               (case absArray absSeller h s of
                  None \<Rightarrow> None
                | Some ss \<Rightarrow>
                    (case absArray absProduct h p of
                       None \<Rightarrow> None
                     | Some ps \<Rightarrow>
                         (case absArray absRecord h r of
                            None \<Rightarrow> None
                          | Some rs \<Rightarrow>
                              Some (Some \<lparr>sellers = ss, products = ps,
                                           purchase_records = rs\<rparr>))))
           | _ \<Rightarrow> Some (Some \<lparr>sellers = NotArray, products = NotArray,
                                 purchase_records = NotArray\<rparr>)))"

text \<open>A store has the built-in objects when it holds a cell for each name of
  \<open>Object.prototype\<close>.\<close>

definition hasBuiltins :: "store \<Rightarrow> bool" where
  "hasBuiltins h = list_all (\<lambda>n. builtinAt h n \<noteq> None) objectPrototypeNames"

definition freshStats :: "stats \<Rightarrow> cell" where
  "freshStats s = StatsCell s None None"

text \<open>The product index of the store names, for each sku, the cell of the product that the
  product index of the first embedding holds.\<close>

definition pidx_rel :: "store \<Rightarrow> (string \<rightharpoonup> addr) \<Rightarrow> (string \<rightharpoonup> product) \<Rightarrow> bool" where
  "pidx_rel h0 pidxh pidxv =
     (\<forall>k. (pidxh k = None \<longrightarrow> pidxv k = None)
        \<and> (\<forall>pa. pidxh k = Some pa \<longrightarrow>
              (\<exists>p. load h0 pa = Some (ProductCell p) \<and> pidxv k = Some p)))"

text \<open>The vocabulary of the frame property.\<close>

definition isStats :: "cell \<Rightarrow> bool" where
  "isStats c = (case c of StatsCell s b t \<Rightarrow> True | _ \<Rightarrow> False)"

text \<open>\<open>keeps c c'\<close>: the cell \<open>c'\<close> is the cell \<open>c\<close>, or both are the same built-in object.
  \<open>inPlace n h h'\<close>: from \<open>h\<close> to \<open>h'\<close> no cell was added or removed, the cells below \<open>n\<close>
  are kept, and if all cells from \<open>n\<close> on were accumulators they still are.\<close>

definition keeps :: "cell \<Rightarrow> cell \<Rightarrow> bool" where
  "keeps c c' = (case c of BuiltinCell n ws \<Rightarrow> isBuiltin n c' | _ \<Rightarrow> c' = c)"

definition inPlace :: "nat \<Rightarrow> store \<Rightarrow> store \<Rightarrow> bool" where
  "inPlace n h h' =
     (length h' = length h \<and> list_all2 keeps (take n h) (take n h')
      \<and> (list_all isStats (drop n h) \<longrightarrow> list_all isStats (drop n h')))"

section \<open>Quantities the properties speak about\<close>

text \<open>The strategy's revenue for an item whose sku resolves, and its cost; both 0 for an
  item that is skipped. The revenue a record adds to its seller differs between the two
  files. \<open>recordsOf\<close> selects the records that the seller index sends to the accumulator
  at a given position.\<close>

definition itemRevenue :: "revenue_fn jsprop \<Rightarrow> (string \<rightharpoonup> product) \<Rightarrow> item \<Rightarrow> num" where
  "itemRevenue cr pidx it =
     (case pidx (item_sku it) of
        None \<Rightarrow> 0
      | Some p \<Rightarrow> (case cr of Function f \<Rightarrow> f it p | _ \<Rightarrow> 0))"

definition itemCost :: "(string \<rightharpoonup> product) \<Rightarrow> item \<Rightarrow> num" where
  "itemCost pidx it =
     (case pidx (item_sku it) of
        None \<Rightarrow> 0
      | Some p \<Rightarrow> prod_purchase_price p * item_quantity it)"

definition recordRevenue ::
  "version \<Rightarrow> revenue_fn jsprop \<Rightarrow> (string \<rightharpoonup> product) \<Rightarrow> purchase_record \<Rightarrow> num" where
  "recordRevenue v cr pidx r =
     (case v of
        MainJs \<Rightarrow> sum_list (map (itemRevenue cr pidx) (rec_items r))
      | Part000 \<Rightarrow> rec_total_amount r)"

definition recordProfit ::
  "revenue_fn jsprop \<Rightarrow> (string \<rightharpoonup> product) \<Rightarrow> purchase_record \<Rightarrow> num" where
  "recordProfit cr pidx r =
     sum_list (map (\<lambda>it. itemRevenue cr pidx it - itemCost pidx it) (rec_items r))"

definition recordsOf :: "(string \<rightharpoonup> nat) \<Rightarrow> nat \<Rightarrow> purchase_record list \<Rightarrow> purchase_record list" where
  "recordsOf sidx i rs = filter (\<lambda>r. sidx (rec_seller_id r) = Some i) rs"

text \<open>The references of the purchase records are plain when no \<open>seller_id\<close> and no \<open>sku\<close> of
  an item is a name of \<open>Object.prototype\<close>, no \<open>seller_id\<close> is the name of a property of an
  accumulator, and no product has the sku \<open>__proto__\<close>. A lookup then finds an own key or
  nothing.\<close>

definition plainReferences :: "product list \<Rightarrow> purchase_record list \<Rightarrow> bool" where
  "plainReferences ps rs =
     (''__proto__'' \<notin> set (map prod_sku ps)
      \<and> list_all (\<lambda>r. rec_seller_id r \<notin> set objectPrototypeNames
                     \<and> rec_seller_id r \<notin> set statsFieldNames
                     \<and> list_all (\<lambda>it. item_sku it \<notin> set objectPrototypeNames) (rec_items r)) rs)"

section \<open>Example data\<close>

definition ex_stats :: stats where
  "ex_stats = \<lparr>st_id = ''s1'', st_name = ''Ann Lee'', st_revenue = 100, st_profit = 200,
     st_sales_count = 1, st_products_sold = [(''A'', 2)]\<rparr>"

definition ex_sellers :: "seller list" where
  "ex_sellers =
     [\<lparr>sel_id = ''s1'', sel_first_name = ''Ann'', sel_last_name = ''Lee''\<rparr>,
      \<lparr>sel_id = ''s2'', sel_first_name = ''Bob'', sel_last_name = ''Ray''\<rparr>,
      \<lparr>sel_id = ''s3'', sel_first_name = ''Cy'', sel_last_name = ''Day''\<rparr>,
      \<lparr>sel_id = ''s4'', sel_first_name = ''Di'', sel_last_name = ''Fox''\<rparr>]"

definition ex_products :: "product list" where
  "ex_products =
     [\<lparr>prod_sku = ''A'', prod_purchase_price = 10\<rparr>,
      \<lparr>prod_sku = ''B'', prod_purchase_price = 5 / 2\<rparr>]"

definition ex_records :: "purchase_record list" where
  "ex_records =
     [\<lparr>rec_seller_id = ''s2'', rec_total_amount = 100, rec_items =
         [\<lparr>item_sku = ''A'', item_quantity = 2, item_sale_price = 30, item_discount = 10\<rparr>,
          \<lparr>item_sku = ''Z'', item_quantity = 1, item_sale_price = 5, item_discount = 0\<rparr>]\<rparr>,
      \<lparr>rec_seller_id = ''s9'', rec_total_amount = 70, rec_items =
         [\<lparr>item_sku = ''A'', item_quantity = 1, item_sale_price = 20, item_discount = 0\<rparr>]\<rparr>,
      \<lparr>rec_seller_id = ''s1'', rec_total_amount = 40, rec_items =
         [\<lparr>item_sku = ''B'', item_quantity = 4, item_sale_price = 10, item_discount = 50\<rparr>]\<rparr>,
      \<lparr>rec_seller_id = ''s2'', rec_total_amount = 10, rec_items =
         [\<lparr>item_sku = ''B'', item_quantity = 1, item_sale_price = 4, item_discount = 0\<rparr>]\<rparr>]"

definition ex_data :: "dataset option" where
  "ex_data = Some \<lparr>sellers = Array ex_sellers, products = Array ex_products,
     purchase_records = Array ex_records\<rparr>"

definition ex_inherited_record :: purchase_record where
  "ex_inherited_record = \<lparr>rec_seller_id = ''constructor'', rec_total_amount = 20, rec_items =
     [\<lparr>item_sku = ''A'', item_quantity = 1, item_sale_price = 20, item_discount = 0\<rparr>]\<rparr>"

definition ex_inherited_data :: "dataset option" where
  "ex_inherited_data = Some \<lparr>sellers = Array ex_sellers, products = Array ex_products,
     purchase_records = Array (ex_records @ [ex_inherited_record])\<rparr>"

definition ex_options :: "version \<Rightarrow> options" where
  "ex_options v = OptObject \<lparr>calculateRevenue = Function calculateSimpleRevenue,
     calculateBonus = Function (calculateBonusByProfit v)\<rparr>"

definition ex_report :: "version \<Rightarrow> report list" where
  "ex_report v =
     [\<lparr>rep_seller_id = ''s2'', rep_name = ''Bob Ray'',
       rep_revenue = (case v of MainJs \<Rightarrow> 58 | Part000 \<Rightarrow> 110),
       rep_profit = 71 / 2, rep_sales_count = 2,
       rep_top_products = [\<lparr>tp_sku = ''A'', tp_quantity = 2\<rparr>, \<lparr>tp_sku = ''B'', tp_quantity = 1\<rparr>],
       rep_bonus = 533 / 100\<rparr>,
      \<lparr>rep_seller_id = ''s1'', rep_name = ''Ann Lee'',
       rep_revenue = (case v of MainJs \<Rightarrow> 20 | Part000 \<Rightarrow> 40),
       rep_profit = 10, rep_sales_count = 1,
       rep_top_products = [\<lparr>tp_sku = ''B'', tp_quantity = 4\<rparr>],
       rep_bonus = 1\<rparr>,
      \<lparr>rep_seller_id = ''s3'', rep_name = ''Cy Day'', rep_revenue = 0,
       rep_profit = 0, rep_sales_count = 0, rep_top_products = [],
       rep_bonus = 0\<rparr>,
      \<lparr>rep_seller_id = ''s4'', rep_name = ''Di Fox'', rep_revenue = 0,
       rep_profit = 0, rep_sales_count = 0, rep_top_products = [],
       rep_bonus = 0\<rparr>]"

definition ex_flat_bonus :: bonus_fn where
  "ex_flat_bonus index total' seller = 123456 / 10000"

definition ex_skus :: "string list" where
  "ex_skus = [''P01'', ''P02'', ''P03'', ''P04'', ''P05'', ''P06'', ''P07'', ''P08'', ''P09'',
     ''P10'', ''P11'']"

definition ex_big_data :: "dataset option" where
  "ex_big_data = Some
     \<lparr>sellers = Array [\<lparr>sel_id = ''s1'', sel_first_name = ''Ann'', sel_last_name = ''Lee''\<rparr>],
      products = Array (map (\<lambda>k. \<lparr>prod_sku = k, prod_purchase_price = 1\<rparr>) ex_skus),
      purchase_records = Array
        [\<lparr>rec_seller_id = ''s1'', rec_total_amount = 132,
          rec_items = map (\<lambda>(k, q). \<lparr>item_sku = k, item_quantity = q, item_sale_price = 2,
                              item_discount = 0\<rparr>)
                        (zip ex_skus [1, 2, 3, 4, 5, 6, 7, 8, 9, 10, 11])\<rparr>]\<rparr>"

definition ex_big_report :: "report list" where
  "ex_big_report =
     [\<lparr>rep_seller_id = ''s1'', rep_name = ''Ann Lee'', rep_revenue = 132,
       rep_profit = 66, rep_sales_count = 1,
       rep_top_products =
         [\<lparr>tp_sku = ''P11'', tp_quantity = 11\<rparr>, \<lparr>tp_sku = ''P10'', tp_quantity = 10\<rparr>,
          \<lparr>tp_sku = ''P09'', tp_quantity = 9\<rparr>, \<lparr>tp_sku = ''P08'', tp_quantity = 8\<rparr>,
          \<lparr>tp_sku = ''P07'', tp_quantity = 7\<rparr>, \<lparr>tp_sku = ''P06'', tp_quantity = 6\<rparr>,
          \<lparr>tp_sku = ''P05'', tp_quantity = 5\<rparr>, \<lparr>tp_sku = ''P04'', tp_quantity = 4\<rparr>,
          \<lparr>tp_sku = ''P03'', tp_quantity = 3\<rparr>, \<lparr>tp_sku = ''P02'', tp_quantity = 2\<rparr>],
       rep_bonus = 99 / 10\<rparr>]"

definition ex_store :: store where
  "ex_store =
     [DataCell (Some 1) (Some 2) (Some 3),
      ArrayCell [4, 5],
      ArrayCell [6],
      ArrayCell [7, 8],
      SellerCell \<lparr>sel_id = ''s1'', sel_first_name = ''Ann'', sel_last_name = ''Lee''\<rparr>,
      SellerCell \<lparr>sel_id = ''s2'', sel_first_name = ''Bob'', sel_last_name = ''Ray''\<rparr>,
      ProductCell \<lparr>prod_sku = ''A'', prod_purchase_price = 10\<rparr>,
      RecordCell ''s2'' 100 (Some 9),
      RecordCell ''s9'' 70 (Some 10),
      ArrayCell [11, 12],
      ArrayCell [11],
      ItemCell \<lparr>item_sku = ''A'', item_quantity = 2, item_sale_price = 30, item_discount = 10\<rparr>,
      ItemCell \<lparr>item_sku = ''Z'', item_quantity = 1, item_sale_price = 5, item_discount = 0\<rparr>]"

definition ex_builtins :: "cell list" where
  "ex_builtins = map (\<lambda>n. BuiltinCell n []) objectPrototypeNames"

definition ex_proto_store :: store where
  "ex_proto_store =
     [DataCell (Some 1) (Some 2) (Some 3),
      ArrayCell [4],
      ArrayCell [5],
      ArrayCell [6],
      SellerCell \<lparr>sel_id = ''s1'', sel_first_name = ''Ann'', sel_last_name = ''Lee''\<rparr>,
      ProductCell \<lparr>prod_sku = ''A'', prod_purchase_price = 10\<rparr>,
      RecordCell ''__proto__'' 70 (Some 7),
      ArrayCell [8],
      ItemCell \<lparr>item_sku = ''Z'', item_quantity = 1, item_sale_price = 5, item_discount = 0\<rparr>]
     @ ex_builtins"

definition ex_proto_report :: report where
  "ex_proto_report =
     \<lparr>rep_seller_id = ''s1'', rep_name = ''Ann Lee'', rep_revenue = 0, rep_profit = 0,
      rep_sales_count = 0, rep_top_products = [], rep_bonus = 0\<rparr>"

section \<open>Properties\<close>

subsection \<open>Rounding\<close>

lemma floor_int_half: "\<lfloor>(of_int n :: rat) + 1 / 2\<rfloor> = n"
  by linarith

lemma toFixed2_of_int: "toFixed2 (of_int n / 100) = of_int n / 100"
proof (cases "n < 0")
  case True
  then have "(of_int n :: rat) / 100 < 0" by simp
  moreover have "- (of_int n / 100) * 100 + 1 / 2 = (of_int (- n) :: rat) + 1 / 2" by simp
  ultimately show ?thesis
    unfolding toFixed2_def using floor_int_half [of "- n"] by (simp del: of_int_minus)
next
  case False
  then have "\<not> (of_int n :: rat) / 100 < 0" by simp
  moreover have "of_int n / 100 * 100 + 1 / 2 = (of_int n :: rat) + 1 / 2" by simp
  ultimately show ?thesis
    unfolding toFixed2_def using floor_int_half [of n] by simp
qed

lemma toFixed2_is_hundredth: "\<exists>n. toFixed2 x = of_int n / 100"
proof (cases "x < 0")
  case True
  then have "toFixed2 x = of_int (- \<lfloor>(- x) * 100 + 1 / 2\<rfloor>) / 100"
    by (simp add: toFixed2_def)
  then show ?thesis by blast
next
  case False
  then show ?thesis by (auto simp: toFixed2_def)
qed

lemma toFixed2_idem: "toFixed2 (toFixed2 x) = toFixed2 x"
proof -
  obtain n where "toFixed2 x = of_int n / 100" using toFixed2_is_hundredth by blast
  then show ?thesis using toFixed2_of_int [of n] by presburger
qed

subsection \<open>Strategies that are functions never throw\<close>

lemma call_Function [simp]: "call (Function f) = Inr f"
  by (simp add: call_def)

lemma mapE_total: "mapE (\<lambda>x. Inr (g x)) xs = Inr (map g xs)"
  by (induction xs) simp_all

lemma assignBonus_Function:
  "assignBonus v (Function f) n = (\<lambda>is. Inr
     \<lparr>rk_stats = snd is,
      rk_bonus = (case v of MainJs \<Rightarrow> f (int (fst is)) (int n) (snd is)
                  | Part000 \<Rightarrow> toFixed2 (f (int (fst is)) (int n) (snd is))),
      rk_top_products = topProducts (snd is)\<rparr>)"
  by (rule ext) (simp add: assignBonus_def Let_def)

lemma length_sortDesc [simp]: "length (sortDesc k xs) = length xs"
  by (simp add: sortDesc_def)

lemma rankSellers_Function:
  "rankSellers v (Function f) sellerStats = Inr (map (\<lambda>is.
     \<lparr>rk_stats = snd is,
      rk_bonus = (case v of MainJs \<Rightarrow> f (int (fst is)) (int (length sellerStats)) (snd is)
                  | Part000 \<Rightarrow> toFixed2 (f (int (fst is)) (int (length sellerStats)) (snd is))),
      rk_top_products = topProducts (snd is)\<rparr>) (enumerate 0 (sortDesc st_profit sellerStats)))"
  by (cases v) (simp_all add: rankSellers_def Let_def assignBonus_Function mapE_total)

subsection \<open>Loops\<close>

lemma forEach_append:
  "forEach f (xs @ ys) s = (case forEach f xs s of Inl e \<Rightarrow> Inl e | Inr s' \<Rightarrow> forEach f ys s')"
  by (induction xs arbitrary: s) (simp_all split: sum.splits)

lemma forEach_invariant:
  assumes "forEach f xs s = Inr s'" and "I s"
    and "\<And>x t t'. x \<in> set xs \<Longrightarrow> I t \<Longrightarrow> f x t = Inr t' \<Longrightarrow> I t'"
  shows "I s'"
  using assms
proof (induction xs arbitrary: s)
  case Nil
  then show ?case by simp
next
  case (Cons x xs)
  from Cons.prems(1) obtain t where t: "f x s = Inr t" and rest: "forEach f xs t = Inr s'"
    by (auto split: sum.splits)
  have "I t" using Cons.prems(2,3) t by auto
  then show ?case using Cons.IH [OF rest] Cons.prems(3) by auto
qed

lemma forEach_accumulates:
  fixes g :: "'s \<Rightarrow> 'n::comm_monoid_add"
  assumes "forEach f xs s = Inr s'" and "I s"
    and "\<And>x t t'. x \<in> set xs \<Longrightarrow> I t \<Longrightarrow> f x t = Inr t' \<Longrightarrow> I t' \<and> g t' = g t + w x"
  shows "I s' \<and> g s' = g s + sum_list (map w xs)"
  using assms
proof (induction xs arbitrary: s)
  case Nil
  then show ?case by simp
next
  case (Cons x xs)
  from Cons.prems(1) obtain t where t: "f x s = Inr t" and rest: "forEach f xs t = Inr s'"
    by (auto split: sum.splits)
  have step: "I t \<and> g t = g s + w x" using Cons.prems(2,3) t by auto
  have "I s' \<and> g s' = g t + sum_list (map w xs)"
    using Cons.IH [OF rest] step Cons.prems(3) by auto
  then show ?case using step by (simp add: add.assoc)
qed

lemma forEach_total:
  assumes "\<And>x t. x \<in> set xs \<Longrightarrow> \<exists>t'. f x t = Inr t'"
  shows "\<exists>s'. forEach f xs s = Inr s'"
  using assms
proof (induction xs arbitrary: s)
  case Nil
  then show ?case by simp
next
  case (Cons x xs)
  obtain t where "f x s = Inr t" using Cons.prems by fastforce
  then show ?case using Cons.IH [of t] Cons.prems by auto
qed

lemma mapE_Inr:
  "mapE f xs = Inr ys \<Longrightarrow> length ys = length xs \<and> (\<forall>i<length xs. f (xs ! i) = Inr (ys ! i))"
proof (induction xs arbitrary: ys)
  case Nil
  then show ?case by simp
next
  case (Cons x xs)
  from Cons.prems obtain y zs where y: "f x = Inr y" and zs: "mapE f xs = Inr zs" and ys: "ys = y # zs"
    by (auto split: sum.splits)
  show ?case using Cons.IH [OF zs] y ys by (auto simp: nth_Cons split: nat.splits)
qed

subsection \<open>Indexes\<close>

lemma buildSellerIndex_snoc:
  "buildSellerIndex (xs @ [x]) = (buildSellerIndex xs)(st_id x \<mapsto> length xs)"
  by (simp add: buildSellerIndex_def enumerate_append_eq)

lemma buildSellerIndex_Some:
  "buildSellerIndex xs k = Some i \<Longrightarrow> i < length xs \<and> st_id (xs ! i) = k"
proof (induction xs arbitrary: i rule: rev_induct)
  case Nil
  then show ?case by (simp add: buildSellerIndex_def)
next
  case (snoc x xs)
  then show ?case
    by (auto simp: buildSellerIndex_snoc nth_append less_Suc_eq split: if_splits)
qed

lemma buildSellerIndex_Nil [simp]: "buildSellerIndex [] = Map.empty"
  by (simp add: buildSellerIndex_def)

lemma buildSellerIndex_dom: "dom (buildSellerIndex xs) = st_id ` set xs"
proof (induction xs rule: rev_induct)
  case Nil
  then show ?case by simp
next
  case (snoc x xs)
  have "dom (buildSellerIndex (xs @ [x])) = insert (st_id x) (dom (buildSellerIndex xs))"
    unfolding buildSellerIndex_snoc by (simp only: dom_fun_upd option.distinct if_False)
  then show ?case using snoc by simp
qed

lemma buildSellerIndex_None: "(buildSellerIndex xs k = None) = (k \<notin> st_id ` set xs)"
  using buildSellerIndex_dom [of xs] by (metis domIff)

lemma buildSellerIndex_distinct:
  "distinct (map st_id xs) \<Longrightarrow> i < length xs \<Longrightarrow> buildSellerIndex xs (st_id (xs ! i)) = Some i"
proof (induction xs rule: rev_induct)
  case Nil
  then show ?case by simp
next
  case (snoc x xs)
  show ?case
  proof (cases "i < length xs")
    case True
    then have "xs ! i \<in> set xs" by simp
    then have "st_id (xs ! i) \<in> st_id ` set xs" by (rule imageI)
    moreover have "st_id x \<notin> st_id ` set xs" using snoc.prems(1) by simp
    ultimately have "st_id (xs ! i) \<noteq> st_id x" by metis
    then show ?thesis using snoc True by (simp add: buildSellerIndex_snoc nth_append)
  next
    case False
    then have "i = length xs" using snoc.prems(2) by simp
    then show ?thesis by (simp add: buildSellerIndex_snoc)
  qed
qed

lemma buildProductIndex_Nil [simp]: "buildProductIndex [] = Map.empty"
  by (simp add: buildProductIndex_def)

lemma buildProductIndex_snoc:
  "buildProductIndex (ps @ [p]) = (buildProductIndex ps)(prod_sku p \<mapsto> p)"
  by (simp add: buildProductIndex_def)

lemma buildProductIndex_Some:
  "buildProductIndex ps k = Some p \<Longrightarrow> p \<in> set ps \<and> prod_sku p = k"
  by (induction ps rule: rev_induct)
     (auto simp: buildProductIndex_snoc split: if_splits)

lemma buildProductIndex_dom: "dom (buildProductIndex ps) = prod_sku ` set ps"
proof (induction ps rule: rev_induct)
  case Nil
  then show ?case by simp
next
  case (snoc p ps)
  have "dom (buildProductIndex (ps @ [p])) = insert (prod_sku p) (dom (buildProductIndex ps))"
    unfolding buildProductIndex_snoc by (simp only: dom_fun_upd option.distinct if_False)
  then show ?case using snoc by simp
qed


subsection \<open>One item, one record\<close>

lemma lookupSeller_Own: "lookupSeller v sidx k = Own a \<longleftrightarrow> sidx k = Some a"
  by (auto simp: lookupSeller_def split: option.splits)

lemma lookupProduct_Own: "lookupProduct v pidx k = Own p \<longleftrightarrow> pidx k = Some p"
  by (auto simp: lookupProduct_def split: option.splits)

lemma lookupProduct_Absent: "lookupProduct v pidx k = Absent \<Longrightarrow> pidx k = None"
  by (auto simp: lookupProduct_def split: option.splits if_splits)

lemma lookupSeller_Absent: "lookupSeller v sidx k = Absent \<Longrightarrow> sidx k = None"
  by (auto simp: lookupSeller_def split: option.splits if_splits)

lemma processItem_unknown:
  "lookupProduct v productIndex (item_sku it) = Absent \<Longrightarrow>
   processItem v cr productIndex it s = Inr s"
  by (simp add: processItem_def)

lemma processItem_Inr:
  assumes "processItem v cr pidx it s = Inr s'"
  shows "st_id s' = st_id s \<and> st_name s' = st_name s
    \<and> st_sales_count s' = st_sales_count s
    \<and> st_revenue s' = st_revenue s + (case v of MainJs \<Rightarrow> itemRevenue cr pidx it | Part000 \<Rightarrow> 0)
    \<and> st_profit s' = st_profit s + (itemRevenue cr pidx it - itemCost pidx it)"
proof (cases "lookupProduct v pidx (item_sku it)")
  case (Own p)
  then have p: "pidx (item_sku it) = Some p" by (simp add: lookupProduct_Own)
  show ?thesis
    using assms Own p
    by (cases v; cases cr)
       (auto simp: processItem_def itemRevenue_def itemCost_def call_def Let_def
             split: option.splits)
next
  case (Inherited n)
  then show ?thesis using assms
    by (simp add: processItem_def split: sum.splits)
next
  case Absent
  then have "pidx (item_sku it) = None" by (rule lookupProduct_Absent)
  then show ?thesis using assms Absent
    by (cases v) (simp_all add: processItem_def itemRevenue_def itemCost_def)
next
  case Unclear
  then show ?thesis using assms by (simp add: processItem_def)
qed

lemma processItemOfBuiltin_Inr:
  "processItemOfBuiltin v cr pidx it s = Inr s' \<Longrightarrow> s' = s"
  by (auto simp: processItemOfBuiltin_def split: found.splits sum.splits)

lemma forEach_processItemOfBuiltin_Inr:
  "forEach (processItemOfBuiltin v cr pidx) its s = Inr s' \<Longrightarrow> s' = s"
  by (rule forEach_invariant [where I = "\<lambda>t. t = s"]) (auto dest: processItemOfBuiltin_Inr)

lemma forEach_processItem_Inr:
  assumes "forEach (processItem v cr pidx) its s = Inr s'"
  shows "st_id s' = st_id s \<and> st_name s' = st_name s
    \<and> st_sales_count s' = st_sales_count s
    \<and> st_revenue s' = st_revenue s
         + (case v of MainJs \<Rightarrow> sum_list (map (itemRevenue cr pidx) its) | Part000 \<Rightarrow> 0)
    \<and> st_profit s' = st_profit s
         + sum_list (map (\<lambda>it. itemRevenue cr pidx it - itemCost pidx it) its)"
  using assms
proof (induction its arbitrary: s)
  case Nil
  then show ?case by (cases v) simp_all
next
  case (Cons it its)
  from Cons.prems obtain t where t: "processItem v cr pidx it s = Inr t"
    and rest: "forEach (processItem v cr pidx) its t = Inr s'"
    by (auto split: sum.splits)
  show ?case
    using processItem_Inr [OF t] Cons.IH [OF rest] by (cases v) simp_all
qed

lemma addQuantity_plain:
  "sku \<notin> set objectPrototypeNames \<Longrightarrow> \<exists>sold'. addQuantity sku q sold = Some sold'"
  by (auto simp: addQuantity_def Let_def objectPrototypeNames_def split: option.splits)

lemma processItem_plain_total:
  assumes "item_sku it \<notin> set objectPrototypeNames" and "pidx ''__proto__'' = None"
  shows "\<exists>s'. processItem v (Function f) pidx it s = Inr s'"
proof (cases "pidx (item_sku it)")
  case None
  then have "lookupProduct v pidx (item_sku it) = Absent"
    using assms by (simp add: lookupProduct_def)
  then show ?thesis by (simp add: processItem_def)
next
  case (Some p)
  then have l: "lookupProduct v pidx (item_sku it) = Own p" by (simp add: lookupProduct_def)
  obtain sold' where "addQuantity (item_sku it) (item_quantity it) (st_products_sold s) = Some sold'"
    using addQuantity_plain [OF assms(1)] by blast
  then show ?thesis using l by (simp add: processItem_def Let_def)
qed

lemma processRecord_unknown:
  "lookupSeller v sellerIndex (rec_seller_id r) = Absent \<Longrightarrow>
   processRecord v cr sellerIndex productIndex r sellerStats = Inr sellerStats"
  by (simp add: processRecord_def)

lemma processRecord_not_own:
  assumes "processRecord v cr sidx pidx r sellerStats = Inr stats'"
    and "sidx (rec_seller_id r) = None"
  shows "stats' = sellerStats"
proof (cases "lookupSeller v sidx (rec_seller_id r)")
  case (Own a)
  then show ?thesis using assms(2) by (simp add: lookupSeller_Own)
next
  case (Inherited n)
  then show ?thesis using assms(1)
    by (simp add: processRecord_def forEach_processItemOfBuiltin_Inr)
next
  case Absent
  then show ?thesis using assms(1) by (simp add: processRecord_def)
next
  case Unclear
  then show ?thesis using assms(1) by (simp add: processRecord_def)
qed

lemma processRecord_Inr:
  assumes "processRecord v cr sidx pidx r sellerStats = Inr stats'"
    and "sidx (rec_seller_id r) = Some a"
  shows "\<exists>s3. stats' = sellerStats[a := s3]
    \<and> st_id s3 = st_id (sellerStats ! a) \<and> st_name s3 = st_name (sellerStats ! a)
    \<and> st_sales_count s3 = st_sales_count (sellerStats ! a) + 1
    \<and> st_revenue s3 = st_revenue (sellerStats ! a) + recordRevenue v cr pidx r
    \<and> st_profit s3 = st_profit (sellerStats ! a) + recordProfit cr pidx r"
proof -
  define s2 where "s2 = (case v of
      MainJs \<Rightarrow> (sellerStats ! a)\<lparr>st_sales_count := st_sales_count (sellerStats ! a) + 1\<rparr>
    | Part000 \<Rightarrow> (sellerStats ! a)\<lparr>st_sales_count := st_sales_count (sellerStats ! a) + 1,
         st_revenue := st_revenue (sellerStats ! a) + rec_total_amount r\<rparr>)"
  have own: "lookupSeller v sidx (rec_seller_id r) = Own a"
    using assms(2) by (simp add: lookupSeller_Own)
  from assms(1) own obtain s3 where s3: "forEach (processItem v cr pidx) (rec_items r) s2 = Inr s3"
    and upd: "stats' = sellerStats[a := s3]"
    by (cases v) (auto simp: processRecord_def Let_def s2_def split: sum.splits)
  show ?thesis
    using forEach_processItem_Inr [OF s3] upd
    by (cases v) (auto simp: s2_def recordRevenue_def recordProfit_def)
qed

lemma processRecord_plain_total:
  assumes "rec_seller_id r \<notin> set objectPrototypeNames"
    and "rec_seller_id r \<notin> set statsFieldNames"
    and "\<forall>it \<in> set (rec_items r). item_sku it \<notin> set objectPrototypeNames"
    and "pidx ''__proto__'' = None"
  shows "\<exists>stats'. processRecord v (Function f) sidx pidx r sellerStats = Inr stats'"
proof (cases "sidx (rec_seller_id r)")
  case None
  then have "lookupSeller v sidx (rec_seller_id r) = Absent"
    using assms(1,2) by (simp add: lookupSeller_def)
  then show ?thesis by (simp add: processRecord_def)
next
  case (Some a)
  then have l: "lookupSeller v sidx (rec_seller_id r) = Own a" by (simp add: lookupSeller_def)
  have "\<And>t. \<exists>s3. forEach (processItem v (Function f) pidx) (rec_items r) t = Inr s3"
    by (rule forEach_total) (use assms(3,4) in \<open>simp add: processItem_plain_total\<close>)
  then obtain s3 where "forEach (processItem v (Function f) pidx) (rec_items r)
      (case v of
         MainJs \<Rightarrow> (sellerStats ! a)\<lparr>st_sales_count := st_sales_count (sellerStats ! a) + 1\<rparr>
       | Part000 \<Rightarrow> (sellerStats ! a)\<lparr>st_sales_count := st_sales_count (sellerStats ! a) + 1,
           st_revenue := st_revenue (sellerStats ! a) + rec_total_amount r\<rparr>) = Inr s3"
    by blast
  then show ?thesis using l
    by (cases v) (auto simp: processRecord_def Let_def)
qed


subsection \<open>All records\<close>

lemma processRecord_step:
  assumes "processRecord v cr sidx pidx r sellerStats = Inr stats'"
    and valid: "\<And>k a. sidx k = Some a \<Longrightarrow> a < length sellerStats"
  shows "length stats' = length sellerStats \<and> map st_id stats' = map st_id sellerStats
    \<and> map st_name stats' = map st_name sellerStats
    \<and> (\<forall>i<length sellerStats.
          st_sales_count (stats' ! i)
            = st_sales_count (sellerStats ! i) + length (recordsOf sidx i [r])
        \<and> st_revenue (stats' ! i)
            = st_revenue (sellerStats ! i) + sum_list (map (recordRevenue v cr pidx) (recordsOf sidx i [r]))
        \<and> st_profit (stats' ! i)
            = st_profit (sellerStats ! i) + sum_list (map (recordProfit cr pidx) (recordsOf sidx i [r])))"
proof (cases "sidx (rec_seller_id r)")
  case None
  have "stats' = sellerStats" using assms(1) None by (rule processRecord_not_own)
  then show ?thesis using None by (simp add: recordsOf_def)
next
  case (Some a)
  then have a: "a < length sellerStats" using valid by blast
  obtain s3 where s3: "stats' = sellerStats[a := s3]"
    "st_id s3 = st_id (sellerStats ! a)" "st_name s3 = st_name (sellerStats ! a)"
    "st_sales_count s3 = st_sales_count (sellerStats ! a) + 1"
    "st_revenue s3 = st_revenue (sellerStats ! a) + recordRevenue v cr pidx r"
    "st_profit s3 = st_profit (sellerStats ! a) + recordProfit cr pidx r"
    using processRecord_Inr [OF assms(1) Some] by blast
  have ids: "map st_id stats' = map st_id sellerStats"
    using s3(1,2) a by (simp add: map_update list_update_same_conv)
  have names: "map st_name stats' = map st_name sellerStats"
    using s3(1,3) a by (simp add: map_update list_update_same_conv)
  have "\<forall>i<length sellerStats.
          st_sales_count (stats' ! i)
            = st_sales_count (sellerStats ! i) + length (recordsOf sidx i [r])
        \<and> st_revenue (stats' ! i)
            = st_revenue (sellerStats ! i) + sum_list (map (recordRevenue v cr pidx) (recordsOf sidx i [r]))
        \<and> st_profit (stats' ! i)
            = st_profit (sellerStats ! i) + sum_list (map (recordProfit cr pidx) (recordsOf sidx i [r]))"
    using s3 Some a by (auto simp: recordsOf_def nth_list_update)
  then show ?thesis using s3(1) ids names by simp
qed

lemma recordsOf_Cons: "recordsOf sidx i (r # rs) = recordsOf sidx i [r] @ recordsOf sidx i rs"
  by (simp add: recordsOf_def)

lemma forEach_processRecord_Inr:
  assumes "forEach (processRecord v cr sidx pidx) rs sellerStats = Inr stats'"
    and valid: "\<And>k a. sidx k = Some a \<Longrightarrow> a < length sellerStats"
  shows "length stats' = length sellerStats \<and> map st_id stats' = map st_id sellerStats
    \<and> map st_name stats' = map st_name sellerStats
    \<and> (\<forall>i<length sellerStats.
          st_sales_count (stats' ! i)
            = st_sales_count (sellerStats ! i) + length (recordsOf sidx i rs)
        \<and> st_revenue (stats' ! i)
            = st_revenue (sellerStats ! i) + sum_list (map (recordRevenue v cr pidx) (recordsOf sidx i rs))
        \<and> st_profit (stats' ! i)
            = st_profit (sellerStats ! i) + sum_list (map (recordProfit cr pidx) (recordsOf sidx i rs)))"
  using assms
proof (induction rs arbitrary: sellerStats)
  case Nil
  then show ?case by (simp add: recordsOf_def)
next
  case (Cons r rs)
  from Cons.prems(1) obtain t where t: "processRecord v cr sidx pidx r sellerStats = Inr t"
    and rest: "forEach (processRecord v cr sidx pidx) rs t = Inr stats'"
    by (auto split: sum.splits)
  note st = processRecord_step [OF t Cons.prems(2)]
  have len: "length t = length sellerStats" using st by simp
  have valid': "\<And>k a. sidx k = Some a \<Longrightarrow> a < length t"
    using Cons.prems(2) len by simp
  note ih = Cons.IH [OF rest valid']
  show ?case
    using st ih len by (simp add: recordsOf_Cons [of sidx _ r rs] add.assoc)
qed

lemma aggregate_Inr:
  assumes "aggregate v cr ss ps rs = Inr sellerStats"
  shows "length sellerStats = length ss \<and> map st_id sellerStats = map sel_id ss
    \<and> (\<forall>i<length ss.
          st_sales_count (sellerStats ! i)
            = length (recordsOf (buildSellerIndex (map initStats ss)) i rs)
        \<and> st_revenue (sellerStats ! i)
            = sum_list (map (recordRevenue v cr (buildProductIndex ps))
                (recordsOf (buildSellerIndex (map initStats ss)) i rs))
        \<and> st_profit (sellerStats ! i)
            = sum_list (map (recordProfit cr (buildProductIndex ps))
                (recordsOf (buildSellerIndex (map initStats ss)) i rs)))"
proof -
  have run: "forEach (processRecord v cr (buildSellerIndex (map initStats ss)) (buildProductIndex ps))
      rs (map initStats ss) = Inr sellerStats"
    using assms by (simp add: aggregate_def Let_def)
  have valid: "\<And>k a. buildSellerIndex (map initStats ss) k = Some a \<Longrightarrow> a < length (map initStats ss)"
    using buildSellerIndex_Some by blast
  have init: "map st_id (map initStats ss) = map sel_id ss"
    by (simp add: initStats_def)
  show ?thesis
    using forEach_processRecord_Inr [OF run valid] init
    by (simp add: initStats_def)
qed

lemma aggregate_plain_total:
  assumes "plainReferences ps rs"
  shows "\<exists>sellerStats. aggregate v (Function f) ss ps rs = Inr sellerStats"
proof -
  have "''__proto__'' \<notin> prod_sku ` set ps" using assms by (simp add: plainReferences_def)
  then have p: "buildProductIndex ps ''__proto__'' = None"
    using buildProductIndex_dom [of ps] by (metis domIff)
  show ?thesis
    unfolding aggregate_def Let_def
  proof (rule forEach_total)
    fix r t assume "r \<in> set rs"
    then have "rec_seller_id r \<notin> set objectPrototypeNames"
      "rec_seller_id r \<notin> set statsFieldNames"
      "\<forall>it \<in> set (rec_items r). item_sku it \<notin> set objectPrototypeNames"
      using assms by (auto simp: plainReferences_def list_all_iff)
    then show "\<exists>t'. processRecord v (Function f) (buildSellerIndex (map initStats ss))
        (buildProductIndex ps) r t = Inr t'"
      using p by (rule processRecord_plain_total)
  qed
qed

subsection \<open>The reference bonus strategy\<close>

text \<open>
  C6. In both files the reference bonus strategy tries the rank rules in the order first,
  second or third, last, other: index 0 gives 15 percent of the profit, indexes 1 and 2 give
  10 percent, index \<open>total - 1\<close> (when none of 0, 1, 2) gives 0, every other index gives
  5 percent. With \<open>total = 1\<close> the only seller gets 15 percent, and with \<open>total = 4\<close> the
  fractions by rank are 0.15, 0.10, 0.10, 0.
\<close>

theorem calculateBonusByProfit_rank_rules:
  "calculateBonusByProfit v 0 t s = st_profit s * (15 / 100)
   \<and> calculateBonusByProfit v 1 t s = st_profit s * (10 / 100)
   \<and> calculateBonusByProfit v 2 t s = st_profit s * (10 / 100)
   \<and> (i \<notin> {0, 1, 2} \<longrightarrow> i = t - 1 \<longrightarrow> calculateBonusByProfit v i t s = 0)
   \<and> (i \<notin> {0, 1, 2} \<longrightarrow> i \<noteq> t - 1 \<longrightarrow> calculateBonusByProfit v i t s = st_profit s * (5 / 100))
   \<and> calculateBonusByProfit v 0 1 s = st_profit s * (15 / 100)
   \<and> map (\<lambda>k. calculateBonusByProfit v k 4 s) [0, 1, 2, 3]
       = map (\<lambda>c. st_profit s * c) [15 / 100, 10 / 100, 10 / 100, 0]"
  by (cases v) (simp_all add: calculateBonusByProfit_def)

theorem calculateBonusByProfit_rank_rules_witness:
  "calculateBonusByProfit MainJs 5 6 ex_stats = 0
   \<and> calculateBonusByProfit Part000 4 6 ex_stats = 10"
  using calculateBonusByProfit_rank_rules [of MainJs 6 ex_stats 5]
    calculateBonusByProfit_rank_rules [of Part000 6 ex_stats 4]
  by (simp add: ex_stats_def)

subsection \<open>The whole run\<close>

lemma checkData_Inr:
  "checkData data = Inr (ss, ps, rs) \<longleftrightarrow>
     (\<exists>d. data = Some d \<and> sellers d = Array ss \<and> products d = Array ps
        \<and> purchase_records d = Array rs \<and> ss \<noteq> [] \<and> ps \<noteq> [] \<and> rs \<noteq> [])"
  by (auto simp: checkData_def split: option.splits jsarray.splits if_splits)

lemma analyzeSalesData_Inr:
  assumes "analyzeSalesData v data opts = Inr rep"
  obtains ss ps rs p sellerStats rankedStats where
    "checkData data = Inr (ss, ps, rs)" "checkOptions v opts = Inr p"
    "aggregate v (calculateRevenue p) ss ps rs = Inr sellerStats"
    "rankSellers v (calculateBonus p) sellerStats = Inr rankedStats"
    "rep = map buildReport rankedStats"
  using assms
  by (auto simp: analyzeSalesData_def split: sum.splits prod.splits)

lemma assignBonus_Inr:
  assumes "assignBonus v cb n is = Inr r"
  shows "rk_stats r = snd is \<and> rk_top_products r = topProducts (snd is)
    \<and> (\<exists>f. cb = Function f
         \<and> rk_bonus r = (case v of MainJs \<Rightarrow> f (int (fst is)) (int n) (snd is)
                         | Part000 \<Rightarrow> toFixed2 (f (int (fst is)) (int n) (snd is))))"
  using assms
  by (cases cb) (auto simp: assignBonus_def call_def Let_def)

lemma rankSellers_Inr:
  assumes "rankSellers v cb sellerStats = Inr rankedStats"
  shows "map rk_stats rankedStats = sortDesc st_profit sellerStats
    \<and> (\<forall>i<length rankedStats. rk_top_products (rankedStats ! i) = topProducts (rk_stats (rankedStats ! i)))
    \<and> (\<forall>i<length rankedStats. \<exists>f. cb = Function f
         \<and> rk_bonus (rankedStats ! i)
             = (case v of
                  MainJs \<Rightarrow> f (int i) (int (length sellerStats)) (rk_stats (rankedStats ! i))
                | Part000 \<Rightarrow> toFixed2 (f (int i) (int (length sellerStats)) (rk_stats (rankedStats ! i)))))"
proof -
  let ?sorted = "sortDesc st_profit sellerStats"
  have m: "mapE (assignBonus v cb (length sellerStats)) (enumerate 0 ?sorted) = Inr rankedStats"
    using assms by (simp add: rankSellers_def Let_def)
  note e = mapE_Inr [OF m]
  have len: "length rankedStats = length sellerStats" using e by simp
  have pt: "\<And>i. i < length sellerStats \<Longrightarrow>
      assignBonus v cb (length sellerStats) (i, ?sorted ! i) = Inr (rankedStats ! i)"
    using e by (simp add: nth_enumerate_eq)
  have "\<And>i. i < length sellerStats \<Longrightarrow> rk_stats (rankedStats ! i) = ?sorted ! i"
    using assignBonus_Inr [OF pt] by simp
  then have a: "map rk_stats rankedStats = ?sorted"
    using len by (simp add: list_eq_iff_nth_eq)
  have b: "\<forall>i<length rankedStats. rk_top_products (rankedStats ! i) = topProducts (rk_stats (rankedStats ! i))"
    using assignBonus_Inr [OF pt] len by simp
  have c: "\<forall>i<length rankedStats. \<exists>f. cb = Function f
         \<and> rk_bonus (rankedStats ! i)
             = (case v of
                  MainJs \<Rightarrow> f (int i) (int (length sellerStats)) (rk_stats (rankedStats ! i))
                | Part000 \<Rightarrow> toFixed2 (f (int i) (int (length sellerStats)) (rk_stats (rankedStats ! i))))"
  proof (intro allI impI)
    fix i assume "i < length rankedStats"
    then have i: "i < length sellerStats" using len by simp
    show "\<exists>f. cb = Function f
         \<and> rk_bonus (rankedStats ! i)
             = (case v of
                  MainJs \<Rightarrow> f (int i) (int (length sellerStats)) (rk_stats (rankedStats ! i))
                | Part000 \<Rightarrow> toFixed2 (f (int i) (int (length sellerStats)) (rk_stats (rankedStats ! i))))"
      using assignBonus_Inr [OF pt [OF i]] by (cases v) auto
  qed
  show ?thesis using a b c by blast
qed

lemma analyzeSalesData_total:
  assumes "checkData data = Inr (ss, ps, rs)"
    and "opts = OptObject \<lparr>calculateRevenue = Function f, calculateBonus = Function g\<rparr>"
    and "plainReferences ps rs"
  shows "\<exists>rep. analyzeSalesData v data opts = Inr rep"
proof -
  have o: "checkOptions v opts = Inr \<lparr>calculateRevenue = Function f, calculateBonus = Function g\<rparr>"
    using assms(2)
    by (cases v) (simp_all add: checkOptions_def optionsTruthy_def optionsIsObject_def
        destructure_def truthy_def isFunction_def)
  obtain sellerStats where a: "aggregate v (Function f) ss ps rs = Inr sellerStats"
    using aggregate_plain_total [OF assms(3)] by blast
  show ?thesis
    using assms(1) o a by (simp add: analyzeSalesData_def rankSellers_Function)
qed

lemma mset_sortDesc [simp]: "mset (sortDesc k xs) = mset xs"
  by (simp add: sortDesc_def)

lemma set_sortDesc [simp]: "set (sortDesc k xs) = set xs"
  by (simp add: sortDesc_def)

lemma sortDesc_sorted: "sorted_wrt (\<lambda>a b. k a \<ge> k b) (sortDesc k xs)"
proof -
  have "sorted (map (\<lambda>x. - k x) (sort_key (\<lambda>x. - k x) xs))" by (rule sorted_sort_key)
  then show ?thesis by (simp add: sortDesc_def sorted_map)
qed

lemma sortDesc_stable: "filter (\<lambda>x. k x = c) (sortDesc k xs) = filter (\<lambda>x. k x = c) xs"
proof -
  have "filter (\<lambda>x. - k x = - c) (sort_key (\<lambda>x. - k x) xs) = filter (\<lambda>x. - k x = - c) xs"
    by (rule sort_key_stable)
  then show ?thesis by (simp add: sortDesc_def)
qed

lemma report_ids:
  assumes "rankSellers v cb sellerStats = Inr rankedStats"
  shows "map rep_seller_id (map buildReport rankedStats) = map st_id (sortDesc st_profit sellerStats)"
proof -
  have "map rep_seller_id (map buildReport rankedStats) = map st_id (map rk_stats rankedStats)"
    by (simp add: buildReport_def)
  then show ?thesis using rankSellers_Inr [OF assms] by simp
qed


subsection \<open>The example run\<close>

lemma ex_checkData: "checkData ex_data = Inr (ex_sellers, ex_products, ex_records)"
  by (simp add: checkData_def ex_data_def ex_sellers_def ex_products_def ex_records_def)

lemma ex_checkOptions:
  "checkOptions v (ex_options v) = Inr \<lparr>calculateRevenue = Function calculateSimpleRevenue,
     calculateBonus = Function (calculateBonusByProfit v)\<rparr>"
  by (cases v) (simp_all add: checkOptions_def ex_options_def optionsTruthy_def
      optionsIsObject_def destructure_def truthy_def isFunction_def)

subsection \<open>The report\<close>




lemma toFixed2_mono: "x \<le> y \<Longrightarrow> toFixed2 x \<le> toFixed2 y"
proof -
  assume xy: "x \<le> y"
  have nn: "\<And>z::rat. 0 \<le> z \<Longrightarrow> 0 \<le> \<lfloor>z * 100 + 1 / 2\<rfloor>" by simp
  show ?thesis
  proof (cases "x < 0")
    case xneg: True
    show ?thesis
    proof (cases "y < 0")
      case True
      have "\<lfloor>(- y) * 100 + 1 / 2\<rfloor> \<le> \<lfloor>(- x) * 100 + 1 / 2\<rfloor>"
        using xy by (intro floor_mono) simp
      then show ?thesis using xneg True by (simp add: toFixed2_def divide_le_cancel)
    next
      case False
      have "0 \<le> \<lfloor>(- x) * 100 + 1 / 2\<rfloor>" using xneg nn [of "- x"] by simp
      moreover have "0 \<le> \<lfloor>y * 100 + 1 / 2\<rfloor>" using False nn [of y] by simp
      ultimately have "- (of_int \<lfloor>(- x) * 100 + 1 / 2\<rfloor> / 100) \<le> (0::rat)"
        and "(0::rat) \<le> of_int \<lfloor>y * 100 + 1 / 2\<rfloor> / 100" by simp_all
      then have "- (of_int \<lfloor>(- x) * 100 + 1 / 2\<rfloor> / 100)
          \<le> (of_int \<lfloor>y * 100 + 1 / 2\<rfloor> / 100 :: rat)" by (rule order_trans)
      moreover have "toFixed2 x = - (of_int \<lfloor>(- x) * 100 + 1 / 2\<rfloor> / 100)"
        using xneg unfolding toFixed2_def by (rule if_P)
      moreover have "toFixed2 y = of_int \<lfloor>y * 100 + 1 / 2\<rfloor> / 100"
        using False unfolding toFixed2_def by (rule if_not_P)
      ultimately show ?thesis by simp
    qed
  next
    case False
    then have y: "\<not> y < 0" using xy by simp
    have "\<lfloor>x * 100 + 1 / 2\<rfloor> \<le> \<lfloor>y * 100 + 1 / 2\<rfloor>"
      using xy by (intro floor_mono) simp
    then show ?thesis using False y by (simp add: toFixed2_def divide_le_cancel)
  qed
qed




lemma processRecord_count:
  assumes "processRecord v cr sidx pidx r sellerStats = Inr stats'"
    and valid: "\<And>k a. sidx k = Some a \<Longrightarrow> a < length sellerStats"
  shows "length stats' = length sellerStats
    \<and> sum_list (map st_sales_count stats')
        = sum_list (map st_sales_count sellerStats)
          + (if sidx (rec_seller_id r) = None then 0 else 1)"
proof (cases "sidx (rec_seller_id r)")
  case None
  have "stats' = sellerStats" using assms(1) None by (rule processRecord_not_own)
  then show ?thesis using None by simp
next
  case (Some a)
  then have a: "a < length sellerStats" using valid by blast
  obtain s3 where s3: "stats' = sellerStats[a := s3]"
    "st_sales_count s3 = st_sales_count (sellerStats ! a) + 1"
    using processRecord_Inr [OF assms(1) Some] by blast
  have "map st_sales_count stats' = (map st_sales_count sellerStats)[a := st_sales_count s3]"
    using s3(1) by (simp add: map_update)
  then have "sum_list (map st_sales_count stats')
      = sum_list (map st_sales_count sellerStats) + st_sales_count s3
        - map st_sales_count sellerStats ! a"
    using a by (simp add: sum_list_update)
  then show ?thesis using s3 a Some by simp
qed

lemma count_as_sum:
  "sum_list (map (\<lambda>x. if P x then 0 else (1::nat)) xs) = length (filter (\<lambda>x. \<not> P x) xs)"
  by (induction xs) simp_all

lemma aggregate_count:
  assumes "aggregate v cr ss ps rs = Inr sellerStats"
  shows "sum_list (map st_sales_count sellerStats)
    = length (filter (\<lambda>r. rec_seller_id r \<in> sel_id ` set ss) rs)"
proof -
  let ?sidx = "buildSellerIndex (map initStats ss)"
  have run: "forEach (processRecord v cr ?sidx (buildProductIndex ps)) rs (map initStats ss) = Inr sellerStats"
    using assms by (simp add: aggregate_def Let_def)
  have "length sellerStats = length ss
      \<and> sum_list (map st_sales_count sellerStats)
          = sum_list (map st_sales_count (map initStats ss))
            + sum_list (map (\<lambda>r. if ?sidx (rec_seller_id r) = None then 0 else 1) rs)"
  proof (rule forEach_accumulates [OF run])
    show "length (map initStats ss) = length ss" by simp
  next
    fix r t t'
    assume len: "length t = length ss"
      and step: "processRecord v cr ?sidx (buildProductIndex ps) r t = Inr t'"
    have valid: "\<And>k a. ?sidx k = Some a \<Longrightarrow> a < length t"
      using buildSellerIndex_Some [of "map initStats ss"] len by fastforce
    show "length t' = length ss
        \<and> sum_list (map st_sales_count t')
            = sum_list (map st_sales_count t) + (if ?sidx (rec_seller_id r) = None then 0 else 1)"
      using processRecord_count [OF step valid] len by simp
  qed
  moreover have "sum_list (map st_sales_count (map initStats ss)) = 0"
    by (simp add: initStats_def comp_def)
  moreover have "\<And>k. (?sidx k = None) = (k \<notin> sel_id ` set ss)"
    by (simp add: buildSellerIndex_None image_image initStats_def)
  ultimately show ?thesis by (simp add: count_as_sum)
qed



lemma topProducts_shape:
  "length (topProducts s) \<le> 10
   \<and> sorted_wrt (\<lambda>a b. tp_quantity a \<ge> tp_quantity b) (topProducts s)"
proof -
  have "sorted_wrt (\<lambda>a b. tp_quantity a \<ge> tp_quantity b)
      (sortDesc tp_quantity (map (\<lambda>(sku, quantity). \<lparr>tp_sku = sku, tp_quantity = quantity\<rparr>)
          (st_products_sold s)))"
    by (rule sortDesc_sorted)
  then show ?thesis by (simp add: topProducts_def sorted_wrt_take)
qed




lemma map_eq_nth:
  assumes "map f xs = map g ys" and "i < length ys"
  shows "f (xs ! i) = g (ys ! i)"
proof -
  have "length xs = length ys" using assms(1) by (rule map_eq_imp_length_eq)
  then have "f (xs ! i) = map f xs ! i" using assms(2) by simp
  also have "\<dots> = g (ys ! i)" unfolding assms(1) using assms(2) by simp
  finally show ?thesis .
qed

lemma recordsOf_distinct:
  assumes "distinct (map sel_id ss)" and "i < length ss"
  shows "recordsOf (buildSellerIndex (map initStats ss)) i rs
    = filter (\<lambda>r. rec_seller_id r = sel_id (ss ! i)) rs"
proof -
  let ?st = "map initStats ss"
  have ids: "map st_id ?st = map sel_id ss" by (simp add: initStats_def)
  have "\<And>k. (buildSellerIndex ?st k = Some i) = (k = sel_id (ss ! i))"
  proof
    fix k assume "buildSellerIndex ?st k = Some i"
    then have "st_id (?st ! i) = k" using buildSellerIndex_Some by blast
    then show "k = sel_id (ss ! i)" using assms(2) by (simp add: initStats_def)
  next
    fix k assume k: "k = sel_id (ss ! i)"
    have d': "distinct (map st_id ?st)" by (simp only: ids assms(1))
    have i': "i < length ?st" using assms(2) by simp
    have n: "st_id (?st ! i) = sel_id (ss ! i)" using assms(2) by (simp add: initStats_def)
    show "buildSellerIndex ?st k = Some i"
      using buildSellerIndex_distinct [OF d' i'] unfolding n k .
  qed
  then show ?thesis by (simp add: recordsOf_def)
qed

text \<open>
  C1. With distinct seller ids, the revenue reported for a seller is the rounded sum, over
  the purchase records carrying that seller's id, of what a record adds: in the second file
  the record's \<open>total_amount\<close>, whatever the revenue strategy returns; in \<^verbatim>\<open>src/main.js\<close>
  the sum of the strategy's results for the items whose sku is known. In both files the
  reported profit is the rounded sum, over the same records and their items of known sku,
  of the strategy's result minus the cost.
\<close>

theorem revenue_source:
  assumes "analyzeSalesData v data opts = Inr rep"
    and "checkData data = Inr (ss, ps, rs)"
    and "checkOptions v opts = Inr p"
    and "distinct (map sel_id ss)"
  shows "\<forall>e \<in> set rep.
      rep_revenue e = toFixed2 (sum_list
        (map (\<lambda>r. case v of
                     Part000 \<Rightarrow> rec_total_amount r
                   | MainJs \<Rightarrow> sum_list (map (itemRevenue (calculateRevenue p) (buildProductIndex ps))
                                  (rec_items r)))
           (filter (\<lambda>r. rec_seller_id r = rep_seller_id e) rs)))
      \<and> rep_profit e = toFixed2 (sum_list
        (map (\<lambda>r. sum_list (map (\<lambda>it. itemRevenue (calculateRevenue p) (buildProductIndex ps) it
                                        - itemCost (buildProductIndex ps) it)
                               (rec_items r)))
           (filter (\<lambda>r. rec_seller_id r = rep_seller_id e) rs)))"
proof
  fix e assume e: "e \<in> set rep"
  from assms(1) obtain ss' ps' rs' p' sellerStats rankedStats where
    d: "checkData data = Inr (ss', ps', rs')"
    and o: "checkOptions v opts = Inr p'"
    and a: "aggregate v (calculateRevenue p') ss' ps' rs' = Inr sellerStats"
    and r: "rankSellers v (calculateBonus p') sellerStats = Inr rankedStats"
    and rep: "rep = map buildReport rankedStats"
    by (rule analyzeSalesData_Inr)
  have eq: "ss' = ss" "ps' = ps" "rs' = rs" "p' = p" using d o assms(2,3) by simp_all
  note ag = aggregate_Inr [OF a, unfolded eq]
  from e rep obtain rk where rk: "rk \<in> set rankedStats" "e = buildReport rk" by auto
  have "rk_stats rk \<in> set (map rk_stats rankedStats)" using rk(1) by simp
  then have "rk_stats rk \<in> set sellerStats" using rankSellers_Inr [OF r] by simp
  then obtain i where i: "i < length ss" "rk_stats rk = sellerStats ! i"
    using ag by (metis in_set_conv_nth)
  have "map st_id sellerStats = map sel_id ss" using ag by simp
  then have "st_id (sellerStats ! i) = sel_id (ss ! i)" using i(1) by (rule map_eq_nth)
  then have id: "rep_seller_id e = sel_id (ss ! i)"
    using rk(2) i by (simp add: buildReport_def)
  have "rep_revenue e = toFixed2 (st_revenue (sellerStats ! i))"
    using rk(2) i by (simp add: buildReport_def)
  also have "st_revenue (sellerStats ! i)
      = sum_list (map (recordRevenue v (calculateRevenue p) (buildProductIndex ps))
          (filter (\<lambda>r. rec_seller_id r = sel_id (ss ! i)) rs))"
    using ag i(1) recordsOf_distinct [OF assms(4) i(1)] by simp
  finally have rev: "rep_revenue e = toFixed2 (sum_list
        (map (\<lambda>r. case v of
                     Part000 \<Rightarrow> rec_total_amount r
                   | MainJs \<Rightarrow> sum_list (map (itemRevenue (calculateRevenue p) (buildProductIndex ps))
                                  (rec_items r)))
           (filter (\<lambda>r. rec_seller_id r = rep_seller_id e) rs)))"
    unfolding id by (cases v) (simp_all add: recordRevenue_def [abs_def])
  have "rep_profit e = toFixed2 (st_profit (sellerStats ! i))"
    using rk(2) i by (simp add: buildReport_def)
  also have "st_profit (sellerStats ! i)
      = sum_list (map (recordProfit (calculateRevenue p) (buildProductIndex ps))
          (filter (\<lambda>r. rec_seller_id r = sel_id (ss ! i)) rs))"
    using ag i(1) recordsOf_distinct [OF assms(4) i(1)] by simp
  finally have prof: "rep_profit e = toFixed2 (sum_list
        (map (\<lambda>r. sum_list (map (\<lambda>it. itemRevenue (calculateRevenue p) (buildProductIndex ps) it
                                        - itemCost (buildProductIndex ps) it)
                               (rec_items r)))
           (filter (\<lambda>r. rec_seller_id r = rep_seller_id e) rs)))"
    unfolding id by (simp add: recordProfit_def [abs_def])
  show "rep_revenue e = toFixed2 (sum_list
        (map (\<lambda>r. case v of
                     Part000 \<Rightarrow> rec_total_amount r
                   | MainJs \<Rightarrow> sum_list (map (itemRevenue (calculateRevenue p) (buildProductIndex ps))
                                  (rec_items r)))
           (filter (\<lambda>r. rec_seller_id r = rep_seller_id e) rs)))
      \<and> rep_profit e = toFixed2 (sum_list
        (map (\<lambda>r. sum_list (map (\<lambda>it. itemRevenue (calculateRevenue p) (buildProductIndex ps) it
                                        - itemCost (buildProductIndex ps) it)
                               (rec_items r)))
           (filter (\<lambda>r. rec_seller_id r = rep_seller_id e) rs)))"
    using rev prof by (rule conjI)
qed

theorem revenue_source_witness:
  "map rep_revenue (ex_report Part000) = [110, 40, 0, 0]
   \<and> rep_revenue (ex_report Part000 ! 0)
       = toFixed2 (sum_list (map rec_total_amount
           (filter (\<lambda>r. rec_seller_id r = ''s2'') ex_records)))"
proof -
  have run: "analyzeSalesData Part000 ex_data (ex_options Part000) = Inr (ex_report Part000)"
    by code_simp
  have dist: "distinct (map sel_id ex_sellers)" by (simp add: ex_sellers_def)
  have e: "ex_report Part000 ! 0 \<in> set (ex_report Part000)" by (simp add: ex_report_def)
  have id: "rep_seller_id (ex_report Part000 ! 0) = ''s2''" by (simp add: ex_report_def)
  have "rep_revenue (ex_report Part000 ! 0)
       = toFixed2 (sum_list (map rec_total_amount
           (filter (\<lambda>r. rec_seller_id r = rep_seller_id (ex_report Part000 ! 0)) ex_records)))"
    using revenue_source [OF run ex_checkData ex_checkOptions dist] e by simp
  then show ?thesis unfolding id by (simp add: ex_report_def)
qed

theorem revenue_source_counterexample:
  "analyzeSalesData MainJs ex_data (ex_options MainJs) = Inr (ex_report MainJs)
   \<and> rep_seller_id (ex_report MainJs ! 0) = ''s2''
   \<and> rep_revenue (ex_report MainJs ! 0) = 58
   \<and> map rec_seller_id ex_records = [''s2'', ''s9'', ''s1'', ''s2'']
   \<and> map rec_total_amount ex_records = [100, 70, 40, 10]"
proof -
  have run: "analyzeSalesData MainJs ex_data (ex_options MainJs) = Inr (ex_report MainJs)"
    by code_simp
  show ?thesis using run by (simp add: ex_report_def ex_records_def)
qed

text \<open>
  C2. The bonus reported for a seller is the result of the bonus strategy rounded to 2
  decimals, and rounding it again changes nothing. The second file rounds the result when it
  assigns it to the accumulator, before the report is built; \<^verbatim>\<open>src/main.js\<close> stores the
  result as returned and rounds it once, in the report.
\<close>

theorem bonus_rounding:
  assumes "rankSellers v cb sellerStats = Inr rankedStats" and "i < length rankedStats"
  shows "\<exists>f. cb = Function f
    \<and> rk_bonus (rankedStats ! i)
        = (case v of
             Part000 \<Rightarrow> toFixed2 (f (int i) (int (length sellerStats)) (rk_stats (rankedStats ! i)))
           | MainJs \<Rightarrow> f (int i) (int (length sellerStats)) (rk_stats (rankedStats ! i)))
    \<and> rep_bonus (buildReport (rankedStats ! i))
        = toFixed2 (f (int i) (int (length sellerStats)) (rk_stats (rankedStats ! i)))
    \<and> toFixed2 (rep_bonus (buildReport (rankedStats ! i)))
        = rep_bonus (buildReport (rankedStats ! i))"
proof -
  from rankSellers_Inr [OF assms(1)] assms(2) obtain f where
    f: "cb = Function f"
    "rk_bonus (rankedStats ! i)
       = (case v of
            MainJs \<Rightarrow> f (int i) (int (length sellerStats)) (rk_stats (rankedStats ! i))
          | Part000 \<Rightarrow> toFixed2 (f (int i) (int (length sellerStats)) (rk_stats (rankedStats ! i))))"
    by blast
  have "rep_bonus (buildReport (rankedStats ! i))
      = toFixed2 (f (int i) (int (length sellerStats)) (rk_stats (rankedStats ! i)))"
    using f(2) by (cases v) (simp_all add: buildReport_def toFixed2_idem)
  moreover have "toFixed2 (rep_bonus (buildReport (rankedStats ! i)))
      = rep_bonus (buildReport (rankedStats ! i))"
    by (simp add: buildReport_def toFixed2_idem)
  ultimately show ?thesis using f by (cases v) auto
qed

theorem bonus_rounding_witness:
  "rankSellers Part000 (Function ex_flat_bonus) [ex_stats]
     = Inr [\<lparr>rk_stats = ex_stats, rk_bonus = 1235 / 100,
             rk_top_products = [\<lparr>tp_sku = ''A'', tp_quantity = 2\<rparr>]\<rparr>]
   \<and> rep_bonus (buildReport \<lparr>rk_stats = ex_stats, rk_bonus = 1235 / 100,
             rk_top_products = [\<lparr>tp_sku = ''A'', tp_quantity = 2\<rparr>]\<rparr>) = 1235 / 100"
proof -
  let ?r = "\<lparr>rk_stats = ex_stats, rk_bonus = 1235 / 100,
             rk_top_products = [\<lparr>tp_sku = ''A'', tp_quantity = 2\<rparr>]\<rparr>"
  have run: "rankSellers Part000 (Function ex_flat_bonus) [ex_stats] = Inr [?r]"
    by code_simp
  have i: "0 < length [?r]" by simp
  have r: "toFixed2 (123456 / 10000) = 1235 / 100" by code_simp
  from bonus_rounding [OF run i] obtain f where
    "Function ex_flat_bonus = Function f"
    "rep_bonus (buildReport ([?r] ! 0))
        = toFixed2 (f (int 0) (int (length [ex_stats])) (rk_stats ([?r] ! 0)))"
    by blast
  then have "rep_bonus (buildReport ?r) = 1235 / 100"
    using r by (simp add: ex_flat_bonus_def)
  then show ?thesis using run by simp
qed

theorem bonus_rounding_counterexample:
  "rankSellers MainJs (Function ex_flat_bonus) [ex_stats]
     = Inr [\<lparr>rk_stats = ex_stats, rk_bonus = 123456 / 10000,
             rk_top_products = [\<lparr>tp_sku = ''A'', tp_quantity = 2\<rparr>]\<rparr>]
   \<and> toFixed2 (123456 / 10000) = 1235 / 100"
  by code_simp

lemma forEach_all_skipped:
  "(\<forall>x \<in> set xs. \<forall>t. f x t = Inr t) \<Longrightarrow> forEach f xs s = Inr s"
  by (induction xs) simp_all

lemma absent_references_skipped:
  "(lookupSeller v sidx (rec_seller_id r) = Absent \<longrightarrow>
      processRecord v cr sidx pidx r sellerStats = Inr sellerStats)
   \<and> (lookupProduct v pidx (item_sku it) = Absent \<longrightarrow> processItem v cr pidx it s = Inr s)
   \<and> (sidx (rec_seller_id r) = Some a \<longrightarrow>
        (\<forall>x \<in> set (rec_items r). lookupProduct v pidx (item_sku x) = Absent) \<longrightarrow>
        processRecord v cr sidx pidx r sellerStats
        = Inr (sellerStats[a := (sellerStats ! a)
            \<lparr>st_sales_count := st_sales_count (sellerStats ! a) + 1,
             st_revenue := st_revenue (sellerStats ! a)
               + (case v of MainJs \<Rightarrow> 0 | Part000 \<Rightarrow> rec_total_amount r)\<rparr>]))"
proof (intro conjI impI)
  assume "lookupSeller v sidx (rec_seller_id r) = Absent"
  then show "processRecord v cr sidx pidx r sellerStats = Inr sellerStats"
    by (rule processRecord_unknown)
next
  assume "lookupProduct v pidx (item_sku it) = Absent"
  then show "processItem v cr pidx it s = Inr s" by (rule processItem_unknown)
next
  assume a: "sidx (rec_seller_id r) = Some a"
    and none: "\<forall>x \<in> set (rec_items r). lookupProduct v pidx (item_sku x) = Absent"
  have own: "lookupSeller v sidx (rec_seller_id r) = Own a"
    using a by (simp add: lookupSeller_Own)
  have "\<And>t. forEach (processItem v cr pidx) (rec_items r) t = Inr t"
    using none by (intro forEach_all_skipped) (simp add: processItem_unknown)
  then show "processRecord v cr sidx pidx r sellerStats
        = Inr (sellerStats[a := (sellerStats ! a)
            \<lparr>st_sales_count := st_sales_count (sellerStats ! a) + 1,
             st_revenue := st_revenue (sellerStats ! a)
               + (case v of MainJs \<Rightarrow> 0 | Part000 \<Rightarrow> rec_total_amount r)\<rparr>])"
    using own by (cases v) (simp_all add: processRecord_def Let_def)
qed

text \<open>
  C7. A purchase record whose \<open>seller_id\<close> matches no seller is not always skipped. The ids
  of the example sellers are \<open>s1\<close> to \<open>s4\<close>. With one more purchase record, whose
  \<open>seller_id\<close> is \<open>constructor\<close> and whose only item has the known sku \<open>A\<close>, both files
  throw a \<open>TypeError\<close>, where without that record they return the report of the example:
  \<open>sellerIndex['constructor']\<close> is the function \<open>Object\<close>, inherited by the index from
  \<open>Object.prototype\<close>, the guard \<open>if (!seller) return\<close> does not fire, and
  \<open>seller.products_sold[item.sku]\<close> reads a property of \<open>undefined\<close>.
\<close>

theorem inherited_seller_id_throws:
  "''constructor'' \<notin> set (map sel_id ex_sellers)
   \<and> ''A'' \<in> set (map prod_sku ex_products)
   \<and> analyzeSalesData MainJs ex_data (ex_options MainJs) = Inr (ex_report MainJs)
   \<and> analyzeSalesData Part000 ex_data (ex_options Part000) = Inr (ex_report Part000)
   \<and> analyzeSalesData MainJs ex_inherited_data (ex_options MainJs) = Inl TypeError
   \<and> analyzeSalesData Part000 ex_inherited_data (ex_options Part000) = Inl TypeError"
  by code_simp

section \<open>Properties of the run over the store\<close>

subsection \<open>What a step over the store may touch\<close>

lemma keeps_refl [simp]: "keeps c c"
  by (cases c) (simp_all add: keeps_def isBuiltin_def)

lemma keeps_trans: "keeps a b \<Longrightarrow> keeps b c \<Longrightarrow> keeps a c"
  by (cases a; cases b) (auto simp: keeps_def isBuiltin_def)

lemma inPlace_refl [simp]: "inPlace n h h"
  by (simp add: inPlace_def list_all2_refl)

lemma inPlace_trans:
  assumes "inPlace n h h1" and "inPlace n h1 h2"
  shows "inPlace n h h2"
proof -
  have a: "list_all2 keeps (take n h) (take n h1)" and b: "list_all2 keeps (take n h1) (take n h2)"
    using assms by (simp_all add: inPlace_def)
  have "list_all2 keeps (take n h) (take n h2)"
    by (rule list_all2_trans [OF _ a b]) (rule keeps_trans)
  then show ?thesis using assms by (simp add: inPlace_def)
qed

lemma inPlace_update: "n \<le> a \<Longrightarrow> inPlace n h (h[a := StatsCell s b t])"
proof -
  assume n: "n \<le> a"
  have "list_all isStats (drop n h) \<Longrightarrow> list_all isStats (drop n (h[a := StatsCell s b t]))"
  proof -
    assume all: "list_all isStats (drop n h)"
    have "drop n (h[a := StatsCell s b t]) = (drop n h)[a - n := StatsCell s b t]"
      using n by (simp add: drop_update_swap)
    moreover have "set ((drop n h)[a - n := StatsCell s b t])
        \<subseteq> insert (StatsCell s b t) (set (drop n h))"
      by (rule set_update_subset_insert)
    ultimately show ?thesis using all by (auto simp: list_all_iff isStats_def)
  qed
  then show ?thesis using n by (simp add: inPlace_def list_all2_refl)
qed

lemma inPlace_assignNaN: "inPlace n h (assignNaN g p h)"
proof (cases "load h g")
  case None
  then show ?thesis by (simp add: assignNaN_def)
next
  case (Some c)
  then have g: "g < length h" "h ! g = c" by (auto simp: load_def split: if_splits)
  show ?thesis
  proof (cases c)
    case (BuiltinCell m ws)
    let ?c = "BuiltinCell m (if p \<in> set ws then ws else ws @ [p])"
    have eq: "assignNaN g p h = h[g := ?c]" using Some BuiltinCell by (simp add: assignNaN_def)
    have k: "keeps (h ! g) ?c" using g BuiltinCell by (simp add: keeps_def isBuiltin_def)
    have "\<And>i. i < length h \<Longrightarrow> keeps (h ! i) (h[g := ?c] ! i)"
    proof -
      fix i assume "i < length h"
      then show "keeps (h ! i) (h[g := ?c] ! i)"
        using k by (cases "i = g") simp_all
    qed
    then have one: "list_all2 keeps (take n h) (take n (h[g := ?c]))"
      by (simp add: list_all2_conv_all_nth)
    have two: "list_all isStats (drop n h) \<longrightarrow> list_all isStats (drop n (h[g := ?c]))"
    proof (cases "g < n")
      case True
      then show ?thesis by simp
    next
      case False
      then have "drop n h ! (g - n) = h ! g" "g - n < length (drop n h)"
        using g(1) by simp_all
      then have "h ! g \<in> set (drop n h)" by (metis nth_mem)
      moreover have "\<not> isStats (h ! g)" using g(2) BuiltinCell by (simp add: isStats_def)
      ultimately have "\<not> list_all isStats (drop n h)"
        unfolding list_all_iff by blast
      then show ?thesis by simp
    qed
    show ?thesis unfolding eq inPlace_def using one two by simp
  qed (use Some in \<open>simp_all add: assignNaN_def\<close>)
qed

lemma forEach_h_inPlace:
  assumes "\<And>x t. x \<in> set xs \<Longrightarrow> inPlace n t (snd (f x t))"
  shows "inPlace n h (snd (forEach_h f xs h))"
  using assms
proof (induction xs arbitrary: h)
  case Nil
  then show ?case by simp
next
  case (Cons x xs)
  have step: "inPlace n h (snd (f x h))" using Cons.prems by simp
  show ?case
  proof (cases "f x h")
    case (Pair e h')
    show ?thesis
    proof (cases e)
      case None
      have "inPlace n h' (snd (forEach_h f xs h'))" using Cons.IH Cons.prems by simp
      then show ?thesis using step Pair None by (auto intro: inPlace_trans)
    next
      case (Some err)
      then show ?thesis using step Pair by simp
    qed
  qed
qed

lemma processItem_h_inPlace:
  "n \<le> sa \<Longrightarrow> inPlace n h (snd (processItem_h v cr pidx sa ia h))"
  by (auto simp: processItem_h_def Let_def inPlace_update
      split: option.splits cell.splits sum.splits found.splits)

lemma processItemOfBuiltin_h_inPlace:
  "inPlace n h (snd (processItemOfBuiltin_h v cr pidx g ia h))"
proof -
  have "inPlace n h (assignNaN g ''profit'' (assignNaN g ''revenue'' h))"
    using inPlace_assignNaN inPlace_trans by blast
  then show ?thesis
    by (cases v)
       (auto simp: processItemOfBuiltin_h_def Let_def inPlace_assignNaN
        split: option.splits cell.splits sum.splits found.splits)
qed

lemma processRecord_h_inPlace:
  assumes "\<And>k a. sidx k = Some a \<Longrightarrow> n \<le> a"
  shows "inPlace n h (snd (processRecord_h v cr sidx pidx ra h))"
proof (cases "load h ra")
  case None
  then show ?thesis by (simp add: processRecord_h_def)
next
  case (Some c)
  show ?thesis
  proof (cases c)
    case (RecordCell seller_id total_amount items)
    show ?thesis
    proof (cases "lookupSeller v sidx seller_id")
      case Absent
      then show ?thesis using Some RecordCell by (simp add: processRecord_h_def)
    next
      case Unclear
      then show ?thesis using Some RecordCell by (simp add: processRecord_h_def)
    next
      case (Inherited m)
      show ?thesis
      proof (cases "builtinAt h m")
        case None
        then show ?thesis using Some RecordCell Inherited by (simp add: processRecord_h_def)
      next
        case g: (Some g)
        define h1 where "h1 = assignNaN g ''sales_count'' h"
        define h2 where "h2 = (case v of MainJs \<Rightarrow> h1 | Part000 \<Rightarrow> assignNaN g ''revenue'' h1)"
        have one: "inPlace n h h1" unfolding h1_def by (rule inPlace_assignNaN)
        have "inPlace n h1 h2" unfolding h2_def by (cases v) (simp_all add: inPlace_assignNaN)
        then have two: "inPlace n h h2" using one inPlace_trans by blast
        have three: "\<And>ias. inPlace n h2 (snd (forEach_h (processItemOfBuiltin_h v cr pidx g) ias h2))"
          by (rule forEach_h_inPlace) (rule processItemOfBuiltin_h_inPlace)
        have "processRecord_h v cr sidx pidx ra h =
            (case loadArray h2 items of
               None \<Rightarrow> (Some TypeError, h2)
             | Some ias \<Rightarrow> forEach_h (processItemOfBuiltin_h v cr pidx g) ias h2)"
          unfolding processRecord_h_def Let_def h2_def h1_def
          using Some RecordCell Inherited g by simp
        then show ?thesis
          using two inPlace_trans [OF two three] by (simp split: option.splits)
      qed
    next
      case (Own sa)
      then have "sidx seller_id = Some sa" by (auto simp: lookupSeller_def split: option.splits if_splits)
      then have n: "n \<le> sa" using assms by blast
      show ?thesis
      proof (cases "load h sa")
        case None
        then show ?thesis using Some RecordCell Own by (simp add: processRecord_h_def)
      next
        case c2: (Some c2)
        show ?thesis
        proof (cases c2)
          case (StatsCell seller b t)
          define seller1 where "seller1 = seller\<lparr>st_sales_count := st_sales_count seller + 1\<rparr>"
          define seller2 where "seller2 = (case v of
              MainJs \<Rightarrow> seller1
            | Part000 \<Rightarrow> seller1\<lparr>st_revenue := st_revenue seller1 + total_amount\<rparr>)"
          define h1 where "h1 = h[sa := StatsCell seller2 b t]"
          have one: "inPlace n h h1" unfolding h1_def using n by (rule inPlace_update)
          have two: "\<And>ias. inPlace n h1 (snd (forEach_h (processItem_h v cr pidx sa) ias h1))"
            by (rule forEach_h_inPlace) (rule processItem_h_inPlace [OF n])
          have "processRecord_h v cr sidx pidx ra h =
              (case loadArray h1 items of
                 None \<Rightarrow> (Some TypeError, h1)
               | Some ias \<Rightarrow> forEach_h (processItem_h v cr pidx sa) ias h1)"
            unfolding processRecord_h_def Let_def h1_def seller2_def seller1_def
            using Some RecordCell Own c2 StatsCell by simp
          then show ?thesis
            using one inPlace_trans [OF one two] by (simp split: option.splits)
        qed (use Some RecordCell Own c2 in \<open>simp_all add: processRecord_h_def\<close>)
      qed
    qed
  qed (use Some in \<open>simp_all add: processRecord_h_def\<close>)
qed

lemma assignBonus_h_inPlace:
  "n \<le> snd ia \<Longrightarrow> inPlace n h (snd (assignBonus_h v cb t ia h))"
  by (auto simp: assignBonus_h_def Let_def inPlace_update
      split: option.splits cell.splits sum.splits)

lemma createStats_appends:
  "createStats as h = (r, h') \<Longrightarrow>
     \<exists>cs. h' = h @ cs \<and> list_all isStats cs
       \<and> (\<forall>ss. r = Inr ss \<longrightarrow> ss = [length h..<length h'])"
proof (induction as arbitrary: h r h')
  case Nil
  then show ?case by auto
next
  case (Cons a as)
  show ?case
  proof (cases "load h a")
    case None
    then show ?thesis using Cons.prems by auto
  next
    case (Some c)
    show ?thesis
    proof (cases c)
      case (SellerCell seller)
      let ?c = "StatsCell (initStats seller) None None"
      obtain r1 h1 where rec: "createStats as (h @ [?c]) = (r1, h1)"
        by (cases "createStats as (h @ [?c])")
      from Cons.IH [OF rec] obtain cs where cs: "h1 = (h @ [?c]) @ cs" "list_all isStats cs"
        "\<forall>ss. r1 = Inr ss \<longrightarrow> ss = [length (h @ [?c])..<length h1]" by blast
      have h': "h' = h1" using Cons.prems Some SellerCell rec by (auto split: sum.splits)
      have r: "\<forall>ss. r = Inr ss \<longrightarrow> ss = [length h..<length h']"
      proof (intro allI impI)
        fix ss assume "r = Inr ss"
        then obtain ss1 where ss1: "r1 = Inr ss1" "ss = length h # ss1"
          using Cons.prems Some SellerCell rec by (auto split: sum.splits)
        have "ss1 = [length (h @ [?c])..<length h1]" using cs(3) ss1(1) by blast
        then have "ss1 = [Suc (length h)..<length h']" using h' by simp
        moreover have "length h < length h'" using cs(1) h' by simp
        then have "[length h..<length h'] = length h # [Suc (length h)..<length h']"
          by (rule upt_conv_Cons)
        ultimately show "ss = [length h..<length h']" using ss1(2) by simp
      qed
      have "h' = h @ (?c # cs)" using cs(1) h' by simp
      moreover have "list_all isStats (?c # cs)" using cs(2) by (simp add: isStats_def)
      ultimately show ?thesis using r by blast
    qed (use Cons.prems Some in auto)
  qed
qed


lemma buildSellerIndex_h_range:
  "buildSellerIndex_h h as acc k = Some a \<Longrightarrow> a \<in> set as \<or> acc k = Some a"
proof (induction as arbitrary: acc)
  case Nil
  then show ?case by simp
next
  case (Cons x as)
  show ?case
  proof (cases "load h x")
    case None
    then show ?thesis using Cons by auto
  next
    case (Some c)
    show ?thesis
    proof (cases c)
      case (StatsCell s b t)
      then have "buildSellerIndex_h h as (acc(st_id s \<mapsto> x)) k = Some a"
        using Cons.prems Some by simp
      from Cons.IH [OF this] show ?thesis by (auto split: if_splits)
    qed (use Cons Some in auto)
  qed
qed

lemma aggregate_h_inPlace:
  assumes "\<And>a. a \<in> set sellerStats \<Longrightarrow> n \<le> a"
  shows "inPlace n h (snd (aggregate_h v cr sellerStats p r h))"
proof -
  have range: "\<And>k a. buildSellerIndex_h h sellerStats Map.empty k = Some a \<Longrightarrow> n \<le> a"
    using buildSellerIndex_h_range assms by fastforce
  have "\<And>pidx rs. inPlace n h (snd (forEach_h
      (processRecord_h v cr (buildSellerIndex_h h sellerStats Map.empty) pidx) rs h))"
    by (rule forEach_h_inPlace) (rule processRecord_h_inPlace, rule range)
  then show ?thesis
    by (simp add: aggregate_h_def Let_def split: option.splits sum.splits)
qed

lemma rankSellers_h_inPlace:
  assumes "\<And>a. a \<in> set sellerStats \<Longrightarrow> n \<le> a"
  shows "inPlace n h (snd (rankSellers_h v cb sellerStats h))"
proof -
  let ?sorted = "sortDesc (profitAt h) sellerStats"
  have "inPlace n h (snd (forEach_h (assignBonus_h v cb (length ?sorted)) (enumerate 0 ?sorted) h))"
  proof (rule forEach_h_inPlace)
    fix x t assume "x \<in> set (enumerate 0 ?sorted)"
    then have "fst x < length ?sorted" "?sorted ! fst x = snd x"
      by (simp_all add: in_set_enumerate_eq)
    then have "snd x \<in> set ?sorted" by (metis nth_mem)
    then have "snd x \<in> set sellerStats" by (simp add: sortDesc_def)
    then have "n \<le> snd x" using assms by blast
    then show "inPlace n t (snd (assignBonus_h v cb (length ?sorted) x t))"
      by (rule assignBonus_h_inPlace)
  qed
  then show ?thesis
    by (auto simp: rankSellers_h_def Let_def split: prod.splits option.splits sum.splits)
qed

lemma inPlace_after_append:
  assumes "inPlace (length h) (h @ cs) h'" and "list_all isStats cs"
  shows "list_all2 keeps h (take (length h) h') \<and> list_all isStats (drop (length h) h')"
  using assms by (simp add: inPlace_def)

lemma analyzeSalesData_h_frame:
  "list_all2 keeps h (take (length h) (snd (analyzeSalesData_h v h data opts)))
   \<and> list_all isStats (drop (length h) (snd (analyzeSalesData_h v h data opts)))"
proof -
  have trivial: "list_all2 keeps h (take (length h) h) \<and> list_all isStats (drop (length h) h)"
    by (simp add: list_all2_refl)
  show ?thesis
  proof (cases "checkData_h h data")
    case (Inl e)
    then show ?thesis using trivial by (simp add: analyzeSalesData_h_def)
  next
    case (Inr spr)
    obtain s p r where spr: "spr = (s, p, r)" by (cases spr)
    show ?thesis
    proof (cases "checkOptions v opts")
      case (Inl e)
      then show ?thesis using trivial Inr spr by (simp add: analyzeSalesData_h_def)
    next
      case strategies: (Inr strategies)
      show ?thesis
      proof (cases "loadArray h s")
        case None
        then show ?thesis using trivial Inr spr strategies by (simp add: analyzeSalesData_h_def)
      next
        case (Some sellerAddrs)
        obtain r1 h1 where cr: "createStats sellerAddrs h = (r1, h1)"
          by (cases "createStats sellerAddrs h")
        from createStats_appends [OF cr] obtain cs where cs: "h1 = h @ cs" "list_all isStats cs"
          "\<forall>ss. r1 = Inr ss \<longrightarrow> ss = [length h..<length h1]" by blast
        show ?thesis
        proof (cases r1)
          case (Inl e)
          then show ?thesis using Inr spr strategies Some cr cs
            by (simp add: analyzeSalesData_h_def list_all2_refl)
        next
          case sellerStats: (Inr sellerStats)
          then have fresh: "\<And>a. a \<in> set sellerStats \<Longrightarrow> length h \<le> a" using cs(3) by simp
          obtain e2 h2 where ag: "aggregate_h v (calculateRevenue strategies) sellerStats p r h1 = (e2, h2)"
            by (cases "aggregate_h v (calculateRevenue strategies) sellerStats p r h1")
          have i2: "inPlace (length h) h1 h2"
            using aggregate_h_inPlace [OF fresh, of sellerStats h1 v "calculateRevenue strategies" p r] ag
            by simp
          show ?thesis
          proof (cases e2)
            case (Some e)
            have "snd (analyzeSalesData_h v h data opts) = h2"
              using Inr spr strategies \<open>loadArray h s = Some sellerAddrs\<close> cr sellerStats ag Some
              by (simp add: analyzeSalesData_h_def)
            then show ?thesis using inPlace_after_append i2 cs by simp
          next
            case None
            have i3: "inPlace (length h) h2 (snd (rankSellers_h v (calculateBonus strategies) sellerStats h2))"
              using rankSellers_h_inPlace [OF fresh] by simp
            have "snd (analyzeSalesData_h v h data opts)
                = snd (rankSellers_h v (calculateBonus strategies) sellerStats h2)"
              using Inr spr strategies \<open>loadArray h s = Some sellerAddrs\<close> cr sellerStats ag None
              by (simp add: analyzeSalesData_h_def)
            moreover have "inPlace (length h) (h @ cs)
                (snd (rankSellers_h v (calculateBonus strategies) sellerStats h2))"
              using inPlace_trans [OF i2 i3] cs(1) by simp
            ultimately show ?thesis
              using inPlace_after_append cs(2) by simp
          qed
        qed
      qed
    qed
  qed
qed


subsection \<open>Writes outside the accumulators\<close>

text \<open>
  C10. Not all accumulation happens in objects that the call has created. In the store
  \<open>ex_proto_store\<close> the only purchase record has the \<open>seller_id\<close> \<open>__proto__\<close>, which is
  the id of no seller, and an item of unknown sku; the cell at address 19 is
  \<open>Object.prototype\<close>. Both files return a report, and after the call that cell, which
  existed before the call, is no longer what it was: \<open>sellerIndex['__proto__']\<close> is
  \<open>Object.prototype\<close>, the guard does not fire, and \<open>seller.sales_count += 1\<close> (in the
  second file also \<open>seller.revenue += total_amount\<close>) assigns to a property of
  \<open>Object.prototype\<close>, from which every object of the input inherits.
\<close>

theorem inherited_seller_id_writes_builtin:
  "load ex_proto_store 19 = Some (BuiltinCell ''__proto__'' [])
   \<and> fst (analyzeSalesData_h MainJs ex_proto_store (Some 0) (ex_options MainJs))
       = Inr [ex_proto_report]
   \<and> load (snd (analyzeSalesData_h MainJs ex_proto_store (Some 0) (ex_options MainJs))) 19
       = Some (BuiltinCell ''__proto__'' [''sales_count''])
   \<and> fst (analyzeSalesData_h Part000 ex_proto_store (Some 0) (ex_options Part000))
       = Inr [ex_proto_report]
   \<and> load (snd (analyzeSalesData_h Part000 ex_proto_store (Some 0) (ex_options Part000))) 19
       = Some (BuiltinCell ''__proto__'' [''sales_count'', ''revenue''])"
  by code_simp

subsection \<open>Validation\<close>

lemma checkData_h_valid:
  "validDataset h data \<longleftrightarrow> (\<exists>spr. checkData_h h data = Inr spr)"
  by (auto simp: validDataset_def nonEmptyArray_def checkData_h_def
      split: option.splits cell.splits)

lemma checkData_h_error: "checkData_h h data = Inl e \<Longrightarrow> e = InvalidInput"
  by (auto simp: checkData_h_def split: option.splits cell.splits if_splits)

lemma forEach_h_error:
  assumes "forEach_h f xs h = (Some e, h')"
    and "\<And>x t e' t'. f x t = (Some e', t') \<Longrightarrow> e' = TypeError \<or> e' = NotModelled"
  shows "e = TypeError \<or> e = NotModelled"
  using assms
proof (induction xs arbitrary: h)
  case Nil
  then show ?case by simp
next
  case (Cons x xs)
  show ?case
  proof (cases "f x h")
    case (Pair e1 h1)
    show ?thesis
    proof (cases e1)
      case None
      then show ?thesis using Cons Pair by simp
    next
      case (Some e')
      then have "e = e'" using Cons.prems(1) Pair by simp
      moreover have "e' = TypeError \<or> e' = NotModelled"
        using Cons.prems(2) [of x h e' h1] Pair Some by simp
      ultimately show ?thesis by simp
    qed
  qed
qed

lemma call_error: "call p = Inl e \<Longrightarrow> e = TypeError"
  by (cases p) (simp_all add: call_def)

lemma processItem_h_error:
  "processItem_h v cr pidx sa ia h = (Some e, h') \<Longrightarrow> e = TypeError \<or> e = NotModelled"
  by (auto simp: processItem_h_def Let_def dest: call_error
      split: option.splits cell.splits sum.splits found.splits)

lemma processItemOfBuiltin_h_error:
  "processItemOfBuiltin_h v cr pidx g ia h = (Some e, h') \<Longrightarrow> e = TypeError \<or> e = NotModelled"
  by (auto simp: processItemOfBuiltin_h_def Let_def dest: call_error
      split: option.splits cell.splits sum.splits found.splits)

lemma processRecord_h_error:
  "processRecord_h v cr sidx pidx ra h = (Some e, h') \<Longrightarrow> e = TypeError \<or> e = NotModelled"
  by (auto simp: processRecord_h_def Let_def
      dest: forEach_h_error [OF _ processItem_h_error]
        forEach_h_error [OF _ processItemOfBuiltin_h_error]
      split: option.splits cell.splits found.splits)

lemma buildProductIndex_h_error: "buildProductIndex_h h as acc = Inl e \<Longrightarrow> e = NotModelled"
  by (induction as arbitrary: acc) (auto split: option.splits cell.splits)

lemma aggregate_h_error:
  "aggregate_h v cr sellerStats p r h = (Some e, h') \<Longrightarrow> e = TypeError \<or> e = NotModelled"
  by (auto simp: aggregate_h_def Let_def
      dest: forEach_h_error [OF _ processRecord_h_error] buildProductIndex_h_error
      split: option.splits sum.splits)

lemma assignBonus_h_error:
  "assignBonus_h v cb t ia h = (Some e, h') \<Longrightarrow> e = TypeError \<or> e = NotModelled"
  by (auto simp: assignBonus_h_def Let_def dest: call_error
      split: option.splits cell.splits sum.splits)

lemma mapE_error:
  assumes "mapE f xs = Inl e" and "\<And>x e'. f x = Inl e' \<Longrightarrow> e' = TypeError"
  shows "e = TypeError"
  using assms by (induction xs arbitrary: e) (auto split: sum.splits)

lemma buildReport_h_error: "buildReport_h h a = Inl e \<Longrightarrow> e = TypeError"
  by (auto simp: buildReport_h_def split: option.splits cell.splits)

lemma rankSellers_h_error:
  "rankSellers_h v cb sellerStats h = (Inl e, h') \<Longrightarrow> e = TypeError \<or> e = NotModelled"
  by (auto simp: rankSellers_h_def Let_def
      dest: forEach_h_error [OF _ assignBonus_h_error] mapE_error [OF _ buildReport_h_error]
      split: prod.splits option.splits sum.splits)

lemma createStats_error: "createStats as h = (Inl e, h') \<Longrightarrow> e = NotModelled"
  by (induction as arbitrary: h h')
     (auto split: option.splits cell.splits sum.splits prod.splits)

lemma run_error_after_checks:
  assumes "checkData_h h data = Inr spr" and "checkOptions v opts = Inr strategies"
    and "analyzeSalesData_h v h data opts = (Inl e, h')"
  shows "e = TypeError \<or> e = NotModelled"
  using assms
  by (auto simp: analyzeSalesData_h_def
      dest: createStats_error aggregate_h_error rankSellers_h_error
      split: option.splits sum.splits prod.splits)


lemma checkOptions_error:
  "checkOptions v opts = Inl e \<Longrightarrow> e = MissingOptions \<or> e = MissingStrategy"
  by (cases v) (auto simp: checkOptions_def Let_def split: if_splits)

lemma checkOptions_falsy:
  "\<not> optionsTruthy opts \<Longrightarrow> checkOptions v opts = Inl MissingOptions"
  by (cases v) (simp_all add: checkOptions_def)

lemma checkOptions_not_object:
  "\<not> optionsIsObject opts \<Longrightarrow> checkOptions Part000 opts = Inl MissingOptions"
  by (simp add: checkOptions_def)

lemma checkOptions_falsy_strategy:
  "\<not> truthy (calculateRevenue p) \<or> \<not> truthy (calculateBonus p) \<Longrightarrow>
   checkOptions v (OptObject p) = Inl MissingStrategy"
  by (cases v) (auto simp: checkOptions_def optionsTruthy_def optionsIsObject_def destructure_def)

lemma checkOptions_not_function:
  "\<not> isFunction (calculateRevenue p) \<or> \<not> isFunction (calculateBonus p) \<Longrightarrow>
   checkOptions Part000 (OptObject p) = Inl MissingStrategy"
  by (auto simp: checkOptions_def optionsTruthy_def optionsIsObject_def destructure_def)

lemma analyzeSalesData_h_checks:
  "analyzeSalesData_h v h data opts =
     (case checkData_h h data of
        Inl e \<Rightarrow> (Inl e, h)
      | Inr spr \<Rightarrow>
          (case checkOptions v opts of
             Inl e \<Rightarrow> (Inl e, h)
           | Inr strategies \<Rightarrow> analyzeSalesData_h v h data opts))"
  by (simp add: analyzeSalesData_h_def split: sum.splits)

text \<open>
  C3. The checks run in the order dataset, options, strategies. A call fails with
  \<open>InvalidInput\<close> when the dataset is absent or one of \<open>sellers\<close>, \<open>products\<close>,
  \<open>purchase_records\<close> is not a non-empty array. With a valid dataset it fails with
  \<open>MissingOptions\<close> when the options are absent or falsy, and in the second file also when
  they are not an object. With a valid dataset and an options object it fails with
  \<open>MissingStrategy\<close> when one of the two strategies is absent or falsy, and in the second
  file also when one of them is not a function. A call that fails with one of these three
  errors leaves the store as it was: no accumulator has been created.
\<close>

theorem validation_failures:
  "(\<not> validDataset h data \<longrightarrow> analyzeSalesData_h v h data opts = (Inl InvalidInput, h))
   \<and> (validDataset h data \<longrightarrow> \<not> optionsTruthy opts \<longrightarrow>
        analyzeSalesData_h v h data opts = (Inl MissingOptions, h))
   \<and> (validDataset h data \<longrightarrow> \<not> optionsIsObject opts \<longrightarrow>
        analyzeSalesData_h Part000 h data opts = (Inl MissingOptions, h))
   \<and> (validDataset h data \<longrightarrow>
        \<not> truthy (calculateRevenue p) \<or> \<not> truthy (calculateBonus p) \<longrightarrow>
        analyzeSalesData_h v h data (OptObject p) = (Inl MissingStrategy, h))
   \<and> (validDataset h data \<longrightarrow>
        \<not> isFunction (calculateRevenue p) \<or> \<not> isFunction (calculateBonus p) \<longrightarrow>
        analyzeSalesData_h Part000 h data (OptObject p) = (Inl MissingStrategy, h))
   \<and> (fst (analyzeSalesData_h v h data opts)
          \<in> {Inl InvalidInput, Inl MissingOptions, Inl MissingStrategy} \<longrightarrow>
        snd (analyzeSalesData_h v h data opts) = h)"
proof (intro conjI impI)
  assume "\<not> validDataset h data"
  then obtain e where "checkData_h h data = Inl e"
    using checkData_h_valid [of h data] by (cases "checkData_h h data") auto
  then show "analyzeSalesData_h v h data opts = (Inl InvalidInput, h)"
    using checkData_h_error by (fastforce simp: analyzeSalesData_h_def)
next
  assume "validDataset h data" and "\<not> optionsTruthy opts"
  then show "analyzeSalesData_h v h data opts = (Inl MissingOptions, h)"
    using checkData_h_valid [of h data] checkOptions_falsy [of opts v]
    by (auto simp: analyzeSalesData_h_def)
next
  assume "validDataset h data" and "\<not> optionsIsObject opts"
  then show "analyzeSalesData_h Part000 h data opts = (Inl MissingOptions, h)"
    using checkData_h_valid [of h data] checkOptions_not_object [of opts]
    by (auto simp: analyzeSalesData_h_def)
next
  assume "validDataset h data"
    and "\<not> truthy (calculateRevenue p) \<or> \<not> truthy (calculateBonus p)"
  then show "analyzeSalesData_h v h data (OptObject p) = (Inl MissingStrategy, h)"
    using checkData_h_valid [of h data] checkOptions_falsy_strategy [of p v]
    by (auto simp: analyzeSalesData_h_def)
next
  assume "validDataset h data"
    and "\<not> isFunction (calculateRevenue p) \<or> \<not> isFunction (calculateBonus p)"
  then show "analyzeSalesData_h Part000 h data (OptObject p) = (Inl MissingStrategy, h)"
    using checkData_h_valid [of h data] checkOptions_not_function [of p]
    by (auto simp: analyzeSalesData_h_def)
next
  assume res: "fst (analyzeSalesData_h v h data opts)
      \<in> {Inl InvalidInput, Inl MissingOptions, Inl MissingStrategy}"
  show "snd (analyzeSalesData_h v h data opts) = h"
  proof (cases "checkData_h h data")
    case (Inl e)
    then show ?thesis by (simp add: analyzeSalesData_h_def)
  next
    case (Inr spr)
    show ?thesis
    proof (cases "checkOptions v opts")
      case (Inl e)
      then show ?thesis using Inr by (simp add: analyzeSalesData_h_def split: prod.splits)
    next
      case strategies: (Inr strategies)
      obtain x h' where run: "analyzeSalesData_h v h data opts = (x, h')"
        by (cases "analyzeSalesData_h v h data opts")
      then obtain e where "x = Inl e" "e \<noteq> TypeError" "e \<noteq> NotModelled" using res by auto
      then show ?thesis using run_error_after_checks [OF Inr strategies] run by blast
    qed
  qed
qed

theorem validation_failures_witness:
  "analyzeSalesData_h MainJs ex_store (Some 4) (ex_options MainJs) = (Inl InvalidInput, ex_store)
   \<and> analyzeSalesData_h MainJs ex_store (Some 0) OptUndefined = (Inl MissingOptions, ex_store)
   \<and> analyzeSalesData_h Part000 ex_store (Some 0) (OptValue True) = (Inl MissingOptions, ex_store)
   \<and> analyzeSalesData_h MainJs ex_store (Some 0)
        (OptObject \<lparr>calculateRevenue = Undefined, calculateBonus = Function ex_flat_bonus\<rparr>)
       = (Inl MissingStrategy, ex_store)
   \<and> analyzeSalesData_h Part000 ex_store (Some 0)
        (OptObject \<lparr>calculateRevenue = Value True, calculateBonus = Function ex_flat_bonus\<rparr>)
       = (Inl MissingStrategy, ex_store)"
proof -
  have bad: "\<not> validDataset ex_store (Some 4)" by code_simp
  have ok: "validDataset ex_store (Some 0)" by code_simp
  have a: "\<not> optionsTruthy OptUndefined" by (simp add: optionsTruthy_def)
  have b: "\<not> optionsIsObject (OptValue True)" by (simp add: optionsIsObject_def)
  let ?p = "\<lparr>calculateRevenue = Undefined, calculateBonus = Function ex_flat_bonus\<rparr>"
  let ?q = "\<lparr>calculateRevenue = Value True, calculateBonus = Function ex_flat_bonus\<rparr>"
  have c: "\<not> truthy (calculateRevenue ?p)" by (simp add: truthy_def)
  have d: "\<not> isFunction (calculateRevenue ?q)" by (simp add: isFunction_def)
  note vf = validation_failures [THEN conjunct1]
    validation_failures [THEN conjunct2, THEN conjunct1]
    validation_failures [THEN conjunct2, THEN conjunct2, THEN conjunct1]
    validation_failures [THEN conjunct2, THEN conjunct2, THEN conjunct2, THEN conjunct1]
    validation_failures [THEN conjunct2, THEN conjunct2, THEN conjunct2, THEN conjunct2,
      THEN conjunct1]
  have 1: "analyzeSalesData_h MainJs ex_store (Some 4) (ex_options MainJs)
      = (Inl InvalidInput, ex_store)"
    using vf(1) bad by (rule mp)
  have 2: "analyzeSalesData_h MainJs ex_store (Some 0) OptUndefined = (Inl MissingOptions, ex_store)"
    using vf(2) [THEN mp, THEN mp] ok a by this
  have 3: "analyzeSalesData_h Part000 ex_store (Some 0) (OptValue True)
      = (Inl MissingOptions, ex_store)"
    using vf(3) [THEN mp, THEN mp] ok b by this
  have 4: "analyzeSalesData_h MainJs ex_store (Some 0) (OptObject ?p) = (Inl MissingStrategy, ex_store)"
    using vf(4) [THEN mp, THEN mp] ok c by blast
  have 5: "analyzeSalesData_h Part000 ex_store (Some 0) (OptObject ?q)
      = (Inl MissingStrategy, ex_store)"
    using vf(5) [THEN mp, THEN mp] ok d by blast
  show ?thesis using 1 2 3 4 5 by (intro conjI)
qed

theorem validation_failures_counterexample:
  "analyzeSalesData_h MainJs ex_store (Some 0) (OptValue True) = (Inl MissingStrategy, ex_store)
   \<and> fst (analyzeSalesData_h MainJs ex_store (Some 0)
        (OptObject \<lparr>calculateRevenue = Value True, calculateBonus = Value True\<rparr>)) = Inl TypeError
   \<and> snd (analyzeSalesData_h MainJs ex_store (Some 0)
        (OptObject \<lparr>calculateRevenue = Value True, calculateBonus = Value True\<rparr>)) \<noteq> ex_store
   \<and> analyzeSalesData_h Part000 ex_store None OptUndefined = (Inl InvalidInput, ex_store)"
  by code_simp

section \<open>The two embeddings agree\<close>

text \<open>
  When the store holds a well-formed dataset and a cell for each built-in object, the run
  over the store returns what the run over values returns for the dataset read from the
  store, errors included. So the properties of the report proved above hold for the run over
  the store as well, and the properties of the store proved above belong to the same
  program.
\<close>

subsection \<open>Reading a store that has grown\<close>

lemma load_append_old: "a < length h \<Longrightarrow> load (h @ cs) a = load h a"
  by (simp add: load_def nth_append)

lemma load_append_new: "i < length cs \<Longrightarrow> load (h @ cs) (length h + i) = Some (cs ! i)"
  by (simp add: load_def nth_append)

lemma load_Some_less: "load h a = Some c \<Longrightarrow> a < length h"
  by (simp add: load_def split: if_splits)

lemma load_append_Some: "load h a = Some c \<Longrightarrow> load (h @ cs) a = Some c"
  using load_append_old [of a h cs] load_Some_less [of h a c] by simp

lemma loadArray_append: "loadArray h x = Some as \<Longrightarrow> loadArray (h @ cs) x = Some as"
proof -
  assume a: "loadArray h x = Some as"
  then obtain a' where "x = Some a'" "load h a' = Some (ArrayCell as)"
    by (auto simp: loadArray_def split: option.splits cell.splits)
  then show ?thesis using load_append_Some [of h a' "ArrayCell as" cs]
    by (simp add: loadArray_def)
qed

lemma absSeller_load: "absSeller h a = Some s \<longleftrightarrow> load h a = Some (SellerCell s)"
  by (auto simp: absSeller_def split: option.splits cell.splits)

lemma absProduct_load: "absProduct h a = Some p \<longleftrightarrow> load h a = Some (ProductCell p)"
  by (auto simp: absProduct_def split: option.splits cell.splits)

lemma absItem_load: "absItem h a = Some i \<longleftrightarrow> load h a = Some (ItemCell i)"
  by (auto simp: absItem_def split: option.splits cell.splits)

lemma those_map_Cons:
  "those (map f (a # as)) = Some ys
     \<longleftrightarrow> (\<exists>y zs. f a = Some y \<and> those (map f as) = Some zs \<and> ys = y # zs)"
  by (auto split: option.splits)

lemma those_map_nth:
  "those (map f as) = Some xs \<Longrightarrow>
     length xs = length as \<and> (\<forall>i<length as. f (as ! i) = Some (xs ! i))"
proof (induction as arbitrary: xs)
  case Nil
  then show ?case by simp
next
  case (Cons a as)
  then obtain y zs where y: "f a = Some y" "those (map f as) = Some zs" "xs = y # zs"
    using those_map_Cons [of f a as xs] by blast
  show ?case using Cons.IH [OF y(2)] y by (auto simp: nth_Cons split: nat.splits)
qed

subsection \<open>Validation\<close>

lemma absArray_cases:
  assumes "absArray f h x = Some A"
  shows "(loadArray h x = None \<and> A = NotArray)
    \<or> (\<exists>as xs. loadArray h x = Some as \<and> those (map (f h) as) = Some xs \<and> A = Array xs)"
  using assms by (auto simp: absArray_def split: option.splits)

lemma those_map_Nil: "those (map f as) = Some xs \<Longrightarrow> (xs = []) = (as = [])"
  using those_map_nth [of f as xs] by auto

lemma checkData_agree:
  assumes "absData h data = Some D"
  shows "(case checkData D of
            Inl e \<Rightarrow> checkData_h h data = Inl e
          | Inr (ss, ps, rs) \<Rightarrow>
              (\<exists>s p r sas pas ras. checkData_h h data = Inr (s, p, r)
                 \<and> loadArray h s = Some sas \<and> those (map (absSeller h) sas) = Some ss
                 \<and> loadArray h p = Some pas \<and> those (map (absProduct h) pas) = Some ps
                 \<and> loadArray h r = Some ras \<and> those (map (absRecord h) ras) = Some rs))"
proof (cases data)
  case None
  then show ?thesis using assms by (simp add: absData_def checkData_def checkData_h_def)
next
  case (Some d)
  show ?thesis
  proof (cases "\<exists>s p r. load h d = Some (DataCell s p r)")
    case False
    then have "D = Some \<lparr>sellers = NotArray, products = NotArray, purchase_records = NotArray\<rparr>"
      using assms Some by (auto simp: absData_def split: option.splits cell.splits)
    moreover have "checkData_h h data = Inl InvalidInput"
      using False Some by (auto simp: checkData_h_def split: option.splits cell.splits)
    ultimately show ?thesis by (simp add: checkData_def)
  next
    case True
    then obtain s p r where cell: "load h d = Some (DataCell s p r)" by blast
    from assms Some cell obtain S P R where
      S: "absArray absSeller h s = Some S" and P: "absArray absProduct h p = Some P"
      and R: "absArray absRecord h r = Some R"
      and D: "D = Some \<lparr>sellers = S, products = P, purchase_records = R\<rparr>"
      by (auto simp: absData_def split: option.splits)
    show ?thesis
      using absArray_cases [OF S] absArray_cases [OF P] absArray_cases [OF R]
      by (auto simp: D Some cell checkData_def checkData_h_def those_map_Nil)
  qed
qed

subsection \<open>The accumulators\<close>

lemma createStats_agree:
  assumes "those (map (absSeller h0) sas) = Some ss" and "length h0 \<le> length h"
    and "take (length h0) h = h0"
  shows "createStats sas h
    = (Inr [length h..<length h + length ss], h @ map freshStats (map initStats ss))"
  using assms
proof (induction sas arbitrary: ss h)
  case Nil
  then show ?case by simp
next
  case (Cons a sas)
  from Cons.prems(1) obtain s zs where s: "absSeller h0 a = Some s"
    "those (map (absSeller h0) sas) = Some zs" "ss = s # zs"
    using those_map_Cons [of "absSeller h0" a sas ss] by blast
  have "h = h0 @ drop (length h0) h" using Cons.prems(3) by (metis append_take_drop_id)
  then have l: "load h a = Some (SellerCell s)"
    using s(1) by (metis absSeller_load load_Some_less load_append_old)
  let ?h1 = "h @ [StatsCell (initStats s) None None]"
  have rec: "createStats sas ?h1
      = (Inr [length ?h1..<length ?h1 + length zs], ?h1 @ map freshStats (map initStats zs))"
    using Cons.prems(2,3) by (intro Cons.IH [OF s(2)]) simp_all
  have u: "[length h..<length h + length ss] = length h # [length ?h1..<length ?h1 + length zs]"
    using s(3) by (simp add: upt_conv_Cons del: upt_Suc)
  have c: "h @ map freshStats (map initStats ss) = ?h1 @ map freshStats (map initStats zs)"
    using s(3) by (simp add: freshStats_def)
  show ?case unfolding u c using l rec by simp
qed


subsection \<open>The two indexes\<close>

lemma load_fresh:
  "i < length st \<Longrightarrow> load (h @ map freshStats st) (length h + i) = Some (StatsCell (st ! i) None None)"
  using load_append_new [of i "map freshStats st" h] by (simp add: freshStats_def)

lemma buildSellerIndex_h_agree_gen:
  "buildSellerIndex_h (h @ map freshStats (pre @ suf))
       [length h + length pre..<length h + length pre + length suf]
       (map_option ((+) (length h)) \<circ> acc)
   = map_option ((+) (length h)) \<circ> fold (\<lambda>(i, s) m. m(st_id s \<mapsto> i)) (enumerate (length pre) suf) acc"
proof (induction suf arbitrary: pre acc)
  case Nil
  then show ?case by simp
next
  case (Cons s suf)
  have l: "load (h @ map freshStats (pre @ s # suf)) (length h + length pre)
      = Some (StatsCell s None None)"
    using load_fresh [of "length pre" "pre @ s # suf" h] by simp
  have u: "[length h + length pre..<length h + length pre + length (s # suf)]
      = (length h + length pre) # [length h + length (pre @ [s])..<length h + length (pre @ [s]) + length suf]"
    by (simp add: upt_conv_Cons del: upt_Suc)
  have a: "(map_option ((+) (length h)) \<circ> acc)(st_id s \<mapsto> length h + length pre)
      = map_option ((+) (length h)) \<circ> (acc(st_id s \<mapsto> length pre))"
    by (rule ext) simp
  have ih: "buildSellerIndex_h (h @ map freshStats ((pre @ [s]) @ suf))
       [length h + length (pre @ [s])..<length h + length (pre @ [s]) + length suf]
       (map_option ((+) (length h)) \<circ> (acc(st_id s \<mapsto> length pre)))
   = map_option ((+) (length h)) \<circ> fold (\<lambda>(i, s) m. m(st_id s \<mapsto> i))
       (enumerate (length (pre @ [s])) suf) (acc(st_id s \<mapsto> length pre))"
    by (rule Cons.IH)
  have step: "buildSellerIndex_h (h @ map freshStats (pre @ s # suf))
       ((length h + length pre) # [length h + length (pre @ [s])..<length h + length (pre @ [s]) + length suf])
       (map_option ((+) (length h)) \<circ> acc)
    = buildSellerIndex_h (h @ map freshStats (pre @ s # suf))
       [length h + length (pre @ [s])..<length h + length (pre @ [s]) + length suf]
       ((map_option ((+) (length h)) \<circ> acc)(st_id s \<mapsto> length h + length pre))"
    using l by (simp only: buildSellerIndex_h.simps option.case cell.case)
  have f: "fold (\<lambda>(i, s) m. m(st_id s \<mapsto> i)) (enumerate (length pre) (s # suf)) acc
      = fold (\<lambda>(i, s) m. m(st_id s \<mapsto> i)) (enumerate (length (pre @ [s])) suf)
          (acc(st_id s \<mapsto> length pre))"
    by simp
  have p: "(pre @ [s]) @ suf = pre @ s # suf" by simp
  show ?case unfolding u step a f using ih unfolding p .
qed

lemma buildSellerIndex_h_agree:
  "buildSellerIndex_h (h @ map freshStats st) [length h..<length h + length st] Map.empty
   = map_option ((+) (length h)) \<circ> buildSellerIndex st"
proof -
  have e: "map_option ((+) (length h)) \<circ> Map.empty = (Map.empty :: string \<rightharpoonup> nat)"
    by (rule ext) simp
  show ?thesis
    using buildSellerIndex_h_agree_gen [of h "[]" st Map.empty]
    by (simp add: e buildSellerIndex_def)
qed

lemma load_extends:
  assumes "take (length h0) h = h0" and "load h0 a = Some c"
  shows "load h a = Some c"
proof -
  have "h = h0 @ drop (length h0) h" using assms(1) by (metis append_take_drop_id)
  then show ?thesis using load_append_Some [OF assms(2)] by metis
qed

lemma buildProductIndex_h_agree:
  assumes "those (map (absProduct h0) pas) = Some ps" and "take (length h0) h = h0"
    and "pidx_rel h0 acch accv"
  shows "\<exists>pidxh. buildProductIndex_h h pas acch = Inr pidxh
    \<and> pidx_rel h0 pidxh (fold (\<lambda>p m. m(prod_sku p \<mapsto> p)) ps accv)"
  using assms
proof (induction pas arbitrary: ps acch accv)
  case Nil
  then show ?case by simp
next
  case (Cons a pas)
  from Cons.prems(1) obtain p zs where p: "absProduct h0 a = Some p"
    "those (map (absProduct h0) pas) = Some zs" "ps = p # zs"
    using those_map_Cons [of "absProduct h0" a pas ps] by blast
  have l0: "load h0 a = Some (ProductCell p)" using p(1) by (simp add: absProduct_load)
  have l: "load h a = Some (ProductCell p)" using load_extends [OF Cons.prems(2) l0] .
  have rel: "pidx_rel h0 (acch(prod_sku p \<mapsto> a)) (accv(prod_sku p \<mapsto> p))"
    using Cons.prems(3) l0 by (simp add: pidx_rel_def)
  have h1: "buildProductIndex_h h (a # pas) acch
      = buildProductIndex_h h pas (acch(prod_sku p \<mapsto> a))"
    using l by (simp only: buildProductIndex_h.simps option.case cell.case)
  have h2: "fold (\<lambda>p m. m(prod_sku p \<mapsto> p)) ps accv
      = fold (\<lambda>p m. m(prod_sku p \<mapsto> p)) zs (accv(prod_sku p \<mapsto> p))"
    unfolding p(3) by (simp only: fold_simps)
  show ?case unfolding h1 h2 by (rule Cons.IH [OF p(2) Cons.prems(2) rel])
qed



subsection \<open>Built-in cells\<close>

lemma keeps_store_refl: "list_all2 keeps h h"
  by (simp add: list_all2_refl)

lemma keeps_store_trans:
  "list_all2 keeps h h1 \<Longrightarrow> list_all2 keeps h1 h2 \<Longrightarrow> list_all2 keeps h h2"
  by (rule list_all2_trans [of keeps keeps keeps]) (rule keeps_trans)

lemma length_assignNaN [simp]: "length (assignNaN g p h) = length h"
  using inPlace_assignNaN [of "length h" h g p] by (simp add: inPlace_def)

lemma keeps_assignNaN: "list_all2 keeps h (assignNaN g p h)"
proof -
  have "list_all2 keeps (take (length h) h) (take (length h) (assignNaN g p h))"
    using inPlace_assignNaN [of "length h" h g p] unfolding inPlace_def by blast
  then show ?thesis by simp
qed

lemma keeps_load:
  assumes "list_all2 keeps h h1" and "load h a = Some c" and "\<forall>n ws. c \<noteq> BuiltinCell n ws"
  shows "load h1 a = Some c"
proof -
  have a: "a < length h" "h ! a = c" using assms(2) by (auto simp: load_def split: if_splits)
  have "length h1 = length h" using assms(1) by (simp add: list_all2_lengthD)
  moreover have "keeps (h ! a) (h1 ! a)" using assms(1) a(1) by (rule list_all2_nthD)
  then have "h1 ! a = c" using a(2) assms(3) by (cases c) (simp_all add: keeps_def)
  ultimately show ?thesis using a(1) by (simp add: load_def)
qed

lemma keeps_isBuiltin:
  assumes "list_all2 keeps h h1" and "a < length h"
  shows "isBuiltin n (h1 ! a) = isBuiltin n (h ! a)"
proof -
  have "keeps (h ! a) (h1 ! a)" using assms by (rule list_all2_nthD)
  then show ?thesis by (cases "h ! a") (auto simp: keeps_def isBuiltin_def split: cell.splits)
qed

lemma keeps_builtinAt:
  assumes "list_all2 keeps h h1"
  shows "builtinAt h1 n = builtinAt h n"
proof -
  have len: "length h1 = length h" using assms by (simp add: list_all2_lengthD)
  have "find (\<lambda>a. isBuiltin n (h1 ! a)) [0..<length h] = find (\<lambda>a. isBuiltin n (h ! a)) [0..<length h]"
    by (rule find_cong) (simp_all add: keeps_isBuiltin [OF assms])
  then show ?thesis by (simp add: builtinAt_def len)
qed

lemma keeps_hasBuiltins: "list_all2 keeps h h1 \<Longrightarrow> hasBuiltins h \<Longrightarrow> hasBuiltins h1"
  by (simp add: hasBuiltins_def keeps_builtinAt)

lemma builtinAt_Some:
  assumes "builtinAt h n = Some g"
  shows "g < length h \<and> (\<exists>ws. h ! g = BuiltinCell n ws)"
proof -
  from assms obtain i where i: "i < length h" "isBuiltin n (h ! ([0..<length h] ! i))"
    "g = [0..<length h] ! i"
    by (auto simp: builtinAt_def find_Some_iff)
  then have g: "g = i" by simp
  then have "isBuiltin n (h ! g)" using i by simp
  then have "\<exists>ws. h ! g = BuiltinCell n ws"
    by (cases "h ! g") (simp_all add: isBuiltin_def)
  then show ?thesis using g i(1) by simp
qed

lemma builtinAt_append:
  assumes "builtinAt h n = Some g"
  shows "builtinAt (h @ cs) n = Some g"
proof -
  from assms obtain i where i: "i < length h" "isBuiltin n (h ! ([0..<length h] ! i))"
    "g = [0..<length h] ! i" "\<forall>j<i. \<not> isBuiltin n (h ! ([0..<length h] ! j))"
    by (auto simp: builtinAt_def find_Some_iff)
  have "find (\<lambda>a. isBuiltin n ((h @ cs) ! a)) [0..<length (h @ cs)] = Some g"
    unfolding find_Some_iff
  proof (intro exI [of _ i] conjI allI impI)
    show "i < length [0..<length (h @ cs)]" using i(1) by simp
    show "isBuiltin n ((h @ cs) ! ([0..<length (h @ cs)] ! i))"
      using i(1,2) by (simp add: nth_append)
    show "g = [0..<length (h @ cs)] ! i" using i(1,3) by simp
    fix j assume "j < i"
    then show "\<not> isBuiltin n ((h @ cs) ! ([0..<length (h @ cs)] ! j))"
      using i(1,4) by (simp add: nth_append)
  qed
  then show ?thesis by (simp add: builtinAt_def)
qed

lemma assignNaN_append:
  "g < length h \<Longrightarrow> assignNaN g p (h @ cs) = assignNaN g p h @ cs"
  by (auto simp: assignNaN_def load_def nth_append list_update_append
      split: cell.splits)

lemma keeps_absItem: "list_all2 keeps h h1 \<Longrightarrow> absItem h a = Some i \<Longrightarrow> absItem h1 a = Some i"
  by (simp add: absItem_load keeps_load)

lemma keeps_those:
  assumes "\<And>a x. f a = Some x \<Longrightarrow> g a = Some x"
  shows "those (map f as) = Some xs \<Longrightarrow> those (map g as) = Some xs"
proof (induction as arbitrary: xs)
  case Nil
  then show ?case by simp
next
  case (Cons a as)
  then obtain y zs where y: "f a = Some y" "those (map f as) = Some zs" "xs = y # zs"
    using those_map_Cons [of f a as xs] by blast
  show ?case using assms [OF y(1)] Cons.IH [OF y(2)] y(3) by simp
qed

lemma keeps_loadArray:
  assumes "list_all2 keeps h h1" and "loadArray h x = Some as"
  shows "loadArray h1 x = Some as"
proof -
  from assms(2) obtain a where "x = Some a" "load h a = Some (ArrayCell as)"
    by (auto simp: loadArray_def split: option.splits cell.splits)
  then show ?thesis using keeps_load [OF assms(1), of a "ArrayCell as"]
    by (simp add: loadArray_def)
qed

lemma keeps_absRecord:
  assumes "list_all2 keeps h h1" and "absRecord h a = Some r"
  shows "absRecord h1 a = Some r"
proof -
  from assms(2) obtain items ias where
    l: "load h a = Some (RecordCell (rec_seller_id r) (rec_total_amount r) items)"
    and la: "loadArray h items = Some ias"
    and its: "those (map (absItem h) ias) = Some (rec_items r)"
    by (auto simp: absRecord_def absItems_def split: option.splits cell.splits)
  have "load h1 a = Some (RecordCell (rec_seller_id r) (rec_total_amount r) items)"
    using keeps_load [OF assms(1) l] by simp
  moreover have "loadArray h1 items = Some ias" using assms(1) la by (rule keeps_loadArray)
  moreover have "those (map (absItem h1) ias) = Some (rec_items r)"
    using its by (rule keeps_those [rotated]) (rule keeps_absItem [OF assms(1)])
  ultimately show ?thesis by (simp add: absRecord_def absItems_def)
qed

lemma keeps_pidx_rel:
  "list_all2 keeps h h1 \<Longrightarrow> pidx_rel h pidxh pidxv \<Longrightarrow> pidx_rel h1 pidxh pidxv"
  unfolding pidx_rel_def using keeps_load by fastforce


subsection \<open>Aggregation\<close>

lemma update_fresh:
  "i < length st \<Longrightarrow>
   (h @ map freshStats st)[length h + i := StatsCell s None None] = h @ map freshStats (st[i := s])"
  by (simp add: list_update_append map_update freshStats_def)

lemma lookupSeller_agree:
  assumes "\<forall>k. sidxh k = map_option ((+) n) (sidxv k)"
  shows "lookupSeller v sidxh k
    = (case lookupSeller v sidxv k of
         Own i \<Rightarrow> Own (n + i) | Inherited m \<Rightarrow> Inherited m | Absent \<Rightarrow> Absent
       | Unclear \<Rightarrow> Unclear)"
proof -
  have "sidxh k = map_option ((+) n) (sidxv k)"
    and "sidxh ''__proto__'' = map_option ((+) n) (sidxv ''__proto__'')"
    using assms by blast+
  then show ?thesis
    by (cases "sidxv k"; cases "sidxv ''__proto__''") (simp_all add: lookupSeller_def)
qed

lemma lookupProduct_agree:
  assumes "pidx_rel h0 pidxh pidxv"
  shows "(case lookupProduct v pidxv k of
            Own p \<Rightarrow> (\<exists>pa. lookupProduct v pidxh k = Own pa \<and> load h0 pa = Some (ProductCell p))
          | Inherited m \<Rightarrow> lookupProduct v pidxh k = Inherited m
          | Absent \<Rightarrow> lookupProduct v pidxh k = Absent
          | Unclear \<Rightarrow> lookupProduct v pidxh k = Unclear)"
proof -
  have k: "(pidxh k = None \<longrightarrow> pidxv k = None)
      \<and> (\<forall>pa. pidxh k = Some pa \<longrightarrow> (\<exists>p. load h0 pa = Some (ProductCell p) \<and> pidxv k = Some p))"
    using assms unfolding pidx_rel_def by blast
  have p: "(pidxh ''__proto__'' = None) = (pidxv ''__proto__'' = None)"
    using assms unfolding pidx_rel_def by (metis option.distinct(1) option.exhaust)
  show ?thesis
  proof (cases "pidxh k")
    case None
    then have "pidxv k = None" using k by simp
    then show ?thesis using None p by (simp add: lookupProduct_def)
  next
    case (Some pa)
    then obtain q where "load h0 pa = Some (ProductCell q)" "pidxv k = Some q" using k by blast
    then show ?thesis using Some by (simp add: lookupProduct_def)
  qed
qed

lemma processItem_agree:
  assumes "absItem h0 ia = Some it" and "pidx_rel h0 pidxh pidxv" and "i < length st"
  shows "processItem_h v cr pidxh (length h0 + i) ia (h0 @ map freshStats st)
    = (case processItem v cr pidxv it (st ! i) of
         Inl e \<Rightarrow> (Some e, h0 @ map freshStats st)
       | Inr s' \<Rightarrow> (None, h0 @ map freshStats (st[i := s'])))"
proof -
  let ?h = "h0 @ map freshStats st"
  have li: "load ?h ia = Some (ItemCell it)"
    using assms(1) by (simp add: absItem_load load_append_Some)
  note lk = lookupProduct_agree [OF assms(2), of v "item_sku it"]
  show ?thesis
  proof (cases "lookupProduct v pidxv (item_sku it)")
    case (Own p)
    then obtain pa where pa: "lookupProduct v pidxh (item_sku it) = Own pa"
      "load h0 pa = Some (ProductCell p)" using lk by auto
    have lp: "load ?h pa = Some (ProductCell p)" using pa(2) by (rule load_append_Some)
    show ?thesis
    proof (cases cr)
      case (Function f)
      show ?thesis
        using li Own pa(1) lp Function load_fresh [OF assms(3), of h0] update_fresh [OF assms(3), of h0]
        by (simp add: processItem_h_def processItem_def Let_def split: option.splits)
    qed (use li Own pa(1) lp in \<open>simp_all add: processItem_h_def processItem_def call_def\<close>)
  next
    case (Inherited m)
    then have "lookupProduct v pidxh (item_sku it) = Inherited m" using lk by simp
    then show ?thesis using li Inherited
      by (cases cr) (simp_all add: processItem_h_def processItem_def call_def)
  next
    case Absent
    then have "lookupProduct v pidxh (item_sku it) = Absent" using lk by simp
    then show ?thesis using li Absent by (simp add: processItem_h_def processItem_def)
  next
    case Unclear
    then have "lookupProduct v pidxh (item_sku it) = Unclear" using lk by simp
    then show ?thesis using li Unclear by (simp add: processItem_h_def processItem_def)
  qed
qed

lemma forEach_items_agree:
  assumes "those (map (absItem h0) ias) = Some its" and "pidx_rel h0 pidxh pidxv"
    and "i < length st"
  shows "(\<forall>s'. forEach (processItem v cr pidxv) its (st ! i) = Inr s' \<longrightarrow>
            forEach_h (processItem_h v cr pidxh (length h0 + i)) ias (h0 @ map freshStats st)
              = (None, h0 @ map freshStats (st[i := s'])))
    \<and> (\<forall>e. forEach (processItem v cr pidxv) its (st ! i) = Inl e \<longrightarrow>
            fst (forEach_h (processItem_h v cr pidxh (length h0 + i)) ias (h0 @ map freshStats st))
              = Some e)"
  using assms
proof (induction ias arbitrary: its st)
  case Nil
  then show ?case by simp
next
  case (Cons ia ias)
  from Cons.prems(1) obtain it zs where it: "absItem h0 ia = Some it"
    "those (map (absItem h0) ias) = Some zs" "its = it # zs"
    using those_map_Cons [of "absItem h0" ia ias its] by blast
  note one = processItem_agree [OF it(1) Cons.prems(2,3), of v cr]
  show ?case
  proof (cases "processItem v cr pidxv it (st ! i)")
    case (Inl e)
    then show ?thesis using one it(3) by simp
  next
    case (Inr s1)
    have i': "i < length (st[i := s1])" using Cons.prems(3) by simp
    note ih = Cons.IH [OF it(2) Cons.prems(2) i']
    have n: "st[i := s1] ! i = s1" using Cons.prems(3) by simp
    show ?thesis using one Inr it(3) ih by (simp add: n)
  qed
qed

lemma absRecord_cases:
  assumes "absRecord h0 ra = Some r"
  obtains items ias where
    "load h0 ra = Some (RecordCell (rec_seller_id r) (rec_total_amount r) items)"
    "loadArray h0 items = Some ias" "those (map (absItem h0) ias) = Some (rec_items r)"
  using assms
  by (auto simp: absRecord_def absItems_def split: option.splits cell.splits)


lemma processItemOfBuiltin_agree:
  assumes "absItem h0 ia = Some it" and "pidx_rel h0 pidxh pidxv"
  shows "(processItemOfBuiltin v cr pidxv it st = Inr st
            \<and> processItemOfBuiltin_h v cr pidxh g ia (h0 @ cs) = (None, h0 @ cs))
    \<or> (\<exists>e. processItemOfBuiltin v cr pidxv it st = Inl e
            \<and> fst (processItemOfBuiltin_h v cr pidxh g ia (h0 @ cs)) = Some e)"
proof -
  have li: "load (h0 @ cs) ia = Some (ItemCell it)"
    using assms(1) by (simp add: absItem_load load_append_Some)
  note lk = lookupProduct_agree [OF assms(2), of v "item_sku it"]
  show ?thesis
  proof (cases "lookupProduct v pidxv (item_sku it)")
    case (Own p)
    then obtain pa where "lookupProduct v pidxh (item_sku it) = Own pa" using lk by auto
    then show ?thesis using li Own
      by (cases cr)
         (simp_all add: processItemOfBuiltin_h_def processItemOfBuiltin_def call_def Let_def)
  next
    case (Inherited m)
    then have "lookupProduct v pidxh (item_sku it) = Inherited m" using lk by simp
    then show ?thesis using li Inherited
      by (cases cr)
         (simp_all add: processItemOfBuiltin_h_def processItemOfBuiltin_def call_def Let_def)
  next
    case Absent
    then have "lookupProduct v pidxh (item_sku it) = Absent" using lk by simp
    then show ?thesis using li Absent
      by (simp add: processItemOfBuiltin_h_def processItemOfBuiltin_def Let_def)
  next
    case Unclear
    then have "lookupProduct v pidxh (item_sku it) = Unclear" using lk by simp
    then show ?thesis using li Unclear
      by (simp add: processItemOfBuiltin_h_def processItemOfBuiltin_def Let_def)
  qed
qed

lemma forEach_itemsOfBuiltin_agree:
  assumes "those (map (absItem h0) ias) = Some its" and "pidx_rel h0 pidxh pidxv"
  shows "(forEach (processItemOfBuiltin v cr pidxv) its st = Inr st
            \<and> forEach_h (processItemOfBuiltin_h v cr pidxh g) ias (h0 @ cs) = (None, h0 @ cs))
    \<or> (\<exists>e. forEach (processItemOfBuiltin v cr pidxv) its st = Inl e
            \<and> fst (forEach_h (processItemOfBuiltin_h v cr pidxh g) ias (h0 @ cs)) = Some e)"
  using assms
proof (induction ias arbitrary: its)
  case Nil
  then show ?case by simp
next
  case (Cons ia ias)
  from Cons.prems(1) obtain it zs where it: "absItem h0 ia = Some it"
    "those (map (absItem h0) ias) = Some zs" "its = it # zs"
    using those_map_Cons [of "absItem h0" ia ias its] by blast
  note one = processItemOfBuiltin_agree [OF it(1) Cons.prems(2), of v cr st g cs]
  note ih = Cons.IH [OF it(2) Cons.prems(2)]
  show ?case
  proof (cases "processItemOfBuiltin v cr pidxv it st")
    case (Inl e)
    then show ?thesis using one it(3) by (auto split: prod.splits option.splits)
  next
    case (Inr s1)
    then have "processItemOfBuiltin v cr pidxv it st = Inr st"
      "processItemOfBuiltin_h v cr pidxh g ia (h0 @ cs) = (None, h0 @ cs)"
      using one by auto
    then show ?thesis using ih it(3) by simp
  qed
qed


lemma processRecord_agree:
  assumes "absRecord h0 ra = Some r" and "pidx_rel h0 pidxh pidxv"
    and "\<forall>k i. sidxv k = Some i \<longrightarrow> i < length st"
    and "\<forall>k. sidxh k = map_option ((+) (length h0)) (sidxv k)"
    and "hasBuiltins h0"
  shows "\<exists>h1. list_all2 keeps h0 h1
    \<and> (\<forall>st'. processRecord v cr sidxv pidxv r st = Inr st' \<longrightarrow>
            processRecord_h v cr sidxh pidxh ra (h0 @ map freshStats st)
              = (None, h1 @ map freshStats st') \<and> length st' = length st)
    \<and> (\<forall>e. processRecord v cr sidxv pidxv r st = Inl e \<longrightarrow>
            fst (processRecord_h v cr sidxh pidxh ra (h0 @ map freshStats st)) = Some e)"
proof -
  let ?h = "h0 @ map freshStats st"
  from assms(1) obtain items ias where
    lr: "load h0 ra = Some (RecordCell (rec_seller_id r) (rec_total_amount r) items)"
    and la: "loadArray h0 items = Some ias"
    and its: "those (map (absItem h0) ias) = Some (rec_items r)"
    by (rule absRecord_cases)
  have lr': "load ?h ra = Some (RecordCell (rec_seller_id r) (rec_total_amount r) items)"
    using lr by (rule load_append_Some)
  note lk = lookupSeller_agree [OF assms(4), of v "rec_seller_id r"]
  show ?thesis
  proof (cases "lookupSeller v sidxv (rec_seller_id r)")
    case Absent
    then have "processRecord v cr sidxv pidxv r st = Inr st"
      "processRecord_h v cr sidxh pidxh ra ?h = (None, ?h)"
      using lr' lk by (simp_all add: processRecord_h_def processRecord_def)
    then show ?thesis using keeps_store_refl [of h0] by auto
  next
    case Unclear
    then have "processRecord v cr sidxv pidxv r st = Inl NotModelled"
      "processRecord_h v cr sidxh pidxh ra ?h = (Some NotModelled, ?h)"
      using lr' lk by (simp_all add: processRecord_h_def processRecord_def)
    then show ?thesis using keeps_store_refl [of h0] by auto
  next
    case (Inherited m)
    then have "m = rec_seller_id r" "m \<in> set objectPrototypeNames"
      by (auto simp: lookupSeller_def split: option.splits if_splits)
    then have "builtinAt h0 m \<noteq> None" using assms(5) by (simp add: hasBuiltins_def list_all_iff)
    then obtain g where g: "builtinAt h0 m = Some g" by blast
    then have gl: "g < length h0" using builtinAt_Some by blast
    have g': "builtinAt ?h m = Some g" using g by (rule builtinAt_append)
    define h1 where "h1 = assignNaN g ''sales_count'' h0"
    define h2 where "h2 = (case v of MainJs \<Rightarrow> h1 | Part000 \<Rightarrow> assignNaN g ''revenue'' h1)"
    have k1: "list_all2 keeps h0 h1" unfolding h1_def by (rule keeps_assignNaN)
    have "list_all2 keeps h1 h2"
      unfolding h2_def by (cases v) (simp_all add: keeps_assignNaN keeps_store_refl)
    then have k2: "list_all2 keeps h0 h2" using k1 keeps_store_trans by blast
    have len1: "length h1 = length h0" unfolding h1_def by simp
    have e1: "assignNaN g ''sales_count'' ?h = h1 @ map freshStats st"
      unfolding h1_def using gl by (rule assignNaN_append)
    have e2: "(case v of MainJs \<Rightarrow> assignNaN g ''sales_count'' ?h
                | Part000 \<Rightarrow> assignNaN g ''revenue'' (assignNaN g ''sales_count'' ?h))
        = h2 @ map freshStats st"
      unfolding h2_def e1 using gl len1 by (cases v) (simp_all add: assignNaN_append)
    have la2: "loadArray (h2 @ map freshStats st) items = Some ias"
      using keeps_loadArray [OF k2 la] by (rule loadArray_append)
    have its2: "those (map (absItem h2) ias) = Some (rec_items r)"
      using its by (rule keeps_those [rotated]) (rule keeps_absItem [OF k2])
    have rel2: "pidx_rel h2 pidxh pidxv" using k2 assms(2) by (rule keeps_pidx_rel)
    have vrun: "processRecord v cr sidxv pidxv r st
        = forEach (processItemOfBuiltin v cr pidxv) (rec_items r) st"
      using Inherited by (simp add: processRecord_def)
    have hrun: "processRecord_h v cr sidxh pidxh ra ?h
        = forEach_h (processItemOfBuiltin_h v cr pidxh g) ias (h2 @ map freshStats st)"
      unfolding processRecord_h_def Let_def
      using lr' lk Inherited g' la2 by (simp add: e2)
    note items = forEach_itemsOfBuiltin_agree [OF its2 rel2, of v cr st g "map freshStats st"]
    show ?thesis
    proof (intro exI [of _ h2] conjI allI impI)
      show "list_all2 keeps h0 h2" by (rule k2)
    next
      fix st' assume "processRecord v cr sidxv pidxv r st = Inr st'"
      then show "processRecord_h v cr sidxh pidxh ra ?h = (None, h2 @ map freshStats st')"
        "length st' = length st"
        using vrun hrun items by auto
    next
      fix e assume "processRecord v cr sidxv pidxv r st = Inl e"
      then show "fst (processRecord_h v cr sidxh pidxh ra ?h) = Some e"
        using vrun hrun items by auto
    qed
  next
    case (Own i)
    then have Some: "sidxv (rec_seller_id r) = Some i" by (simp add: lookupSeller_Own)
    then have i: "i < length st" using assms(3) by blast
    have ownh: "lookupSeller v sidxh (rec_seller_id r) = Own (length h0 + i)"
      using lk Own by simp
    define s2 where "s2 = (case v of
        MainJs \<Rightarrow> (st ! i)\<lparr>st_sales_count := st_sales_count (st ! i) + 1\<rparr>
      | Part000 \<Rightarrow> ((st ! i)\<lparr>st_sales_count := st_sales_count (st ! i) + 1\<rparr>)
          \<lparr>st_revenue := st_revenue ((st ! i)\<lparr>st_sales_count := st_sales_count (st ! i) + 1\<rparr>)
             + rec_total_amount r\<rparr>)"
    let ?st1 = "st[i := s2]"
    have i1: "i < length ?st1" using i by simp
    have n: "?st1 ! i = s2" using i by simp
    have la1: "loadArray (h0 @ map freshStats ?st1) items = Some ias"
      using la by (rule loadArray_append)
    have vrun: "processRecord v cr sidxv pidxv r st
        = (case forEach (processItem v cr pidxv) (rec_items r) s2 of
             Inl e \<Rightarrow> Inl e | Inr s3 \<Rightarrow> Inr (st[i := s3]))"
      unfolding processRecord_def Let_def s2_def using Own by simp
    have hrun: "processRecord_h v cr sidxh pidxh ra ?h
        = forEach_h (processItem_h v cr pidxh (length h0 + i)) ias (h0 @ map freshStats ?st1)"
      unfolding processRecord_h_def Let_def s2_def
      using lr' ownh load_fresh [OF i, of h0] update_fresh [OF i, of h0]
        la1 [unfolded s2_def]
      by simp
    note items = forEach_items_agree [OF its assms(2) i1, of v cr, unfolded n]
    show ?thesis
    proof (cases "forEach (processItem v cr pidxv) (rec_items r) s2")
      case (Inl e)
      then show ?thesis using vrun hrun items keeps_store_refl [of h0] by auto
    next
      case (Inr s3)
      then have "processRecord v cr sidxv pidxv r st = Inr (st[i := s3])"
        "processRecord_h v cr sidxh pidxh ra ?h = (None, h0 @ map freshStats (st[i := s3]))"
        using vrun hrun items i by simp_all
      then show ?thesis using keeps_store_refl [of h0] by auto
    qed
  qed
qed

lemma forEach_records_agree:
  assumes "those (map (absRecord h0) ras) = Some rs" and "pidx_rel h0 pidxh pidxv"
    and "\<forall>k i. sidxv k = Some i \<longrightarrow> i < length st"
    and "\<forall>k. sidxh k = map_option ((+) (length h0)) (sidxv k)"
    and "hasBuiltins h0"
  shows "\<exists>h1. list_all2 keeps h0 h1
    \<and> (\<forall>st'. forEach (processRecord v cr sidxv pidxv) rs st = Inr st' \<longrightarrow>
            forEach_h (processRecord_h v cr sidxh pidxh) ras (h0 @ map freshStats st)
              = (None, h1 @ map freshStats st') \<and> length st' = length st)
    \<and> (\<forall>e. forEach (processRecord v cr sidxv pidxv) rs st = Inl e \<longrightarrow>
            fst (forEach_h (processRecord_h v cr sidxh pidxh) ras (h0 @ map freshStats st))
              = Some e)"
  using assms
proof (induction ras arbitrary: rs st h0)
  case Nil
  then show ?case using keeps_store_refl [of h0] by auto
next
  case (Cons ra ras)
  from Cons.prems(1) obtain r zs where r: "absRecord h0 ra = Some r"
    "those (map (absRecord h0) ras) = Some zs" "rs = r # zs"
    using those_map_Cons [of "absRecord h0" ra ras rs] by blast
  from processRecord_agree [OF r(1) Cons.prems(2,3,4,5), where v = v and cr = cr]
  obtain h1 where h1: "list_all2 keeps h0 h1"
    "\<forall>st'. processRecord v cr sidxv pidxv r st = Inr st' \<longrightarrow>
            processRecord_h v cr sidxh pidxh ra (h0 @ map freshStats st)
              = (None, h1 @ map freshStats st') \<and> length st' = length st"
    "\<forall>e. processRecord v cr sidxv pidxv r st = Inl e \<longrightarrow>
            fst (processRecord_h v cr sidxh pidxh ra (h0 @ map freshStats st)) = Some e"
    by blast
  show ?case
  proof (cases "processRecord v cr sidxv pidxv r st")
    case (Inl e)
    then have "fst (processRecord_h v cr sidxh pidxh ra (h0 @ map freshStats st)) = Some e"
      using h1(3) by simp
    then have "fst (forEach_h (processRecord_h v cr sidxh pidxh) (ra # ras) (h0 @ map freshStats st))
        = Some e"
      by (auto split: prod.splits option.splits)
    then show ?thesis using Inl r(3) keeps_store_refl [of h0] by auto
  next
    case (Inr st1)
    then have step: "processRecord_h v cr sidxh pidxh ra (h0 @ map freshStats st)
        = (None, h1 @ map freshStats st1)" and len: "length st1 = length st"
      using h1(2) by simp_all
    have len1: "length h1 = length h0" using h1(1) by (simp add: list_all2_lengthD)
    have valid: "\<forall>k i. sidxv k = Some i \<longrightarrow> i < length st1"
      using Cons.prems(3) len by simp
    have recs: "those (map (absRecord h1) ras) = Some zs"
      using r(2) by (rule keeps_those [rotated]) (rule keeps_absRecord [OF h1(1)])
    have rel: "pidx_rel h1 pidxh pidxv" using h1(1) Cons.prems(2) by (rule keeps_pidx_rel)
    have sx: "\<forall>k. sidxh k = map_option ((+) (length h1)) (sidxv k)"
      using Cons.prems(4) len1 by simp
    have hb: "hasBuiltins h1" using h1(1) Cons.prems(5) by (rule keeps_hasBuiltins)
    from Cons.IH [OF recs rel valid sx hb]
    obtain h2 where h2: "list_all2 keeps h1 h2"
      "\<forall>st'. forEach (processRecord v cr sidxv pidxv) zs st1 = Inr st' \<longrightarrow>
            forEach_h (processRecord_h v cr sidxh pidxh) ras (h1 @ map freshStats st1)
              = (None, h2 @ map freshStats st') \<and> length st' = length st1"
      "\<forall>e. forEach (processRecord v cr sidxv pidxv) zs st1 = Inl e \<longrightarrow>
            fst (forEach_h (processRecord_h v cr sidxh pidxh) ras (h1 @ map freshStats st1))
              = Some e"
      by blast
    have k: "list_all2 keeps h0 h2" using h1(1) h2(1) by (rule keeps_store_trans)
    show ?thesis
      using k h2(2,3) step Inr r(3) len by (intro exI [of _ h2]) simp
  qed
qed

lemma pidx_rel_empty: "pidx_rel h0 Map.empty Map.empty"
  by (simp add: pidx_rel_def)

lemma aggregate_agree:
  assumes "loadArray h0 p = Some pas" and "those (map (absProduct h0) pas) = Some ps"
    and "loadArray h0 r = Some ras" and "those (map (absRecord h0) ras) = Some rs"
    and "hasBuiltins h0"
  shows "\<exists>h1. list_all2 keeps h0 h1
    \<and> (\<forall>st'. aggregate v cr ss ps rs = Inr st' \<longrightarrow>
            aggregate_h v cr [length h0..<length h0 + length ss] p r
                (h0 @ map freshStats (map initStats ss))
              = (None, h1 @ map freshStats st') \<and> length st' = length ss)
    \<and> (\<forall>e. aggregate v cr ss ps rs = Inl e \<longrightarrow>
            fst (aggregate_h v cr [length h0..<length h0 + length ss] p r
                (h0 @ map freshStats (map initStats ss))) = Some e)"
proof -
  let ?st = "map initStats ss"
  let ?h = "h0 @ map freshStats ?st"
  have sidx: "buildSellerIndex_h ?h [length h0..<length h0 + length ss] Map.empty
      = map_option ((+) (length h0)) \<circ> buildSellerIndex ?st"
    using buildSellerIndex_h_agree [of h0 ?st] by simp
  have ext: "take (length h0) ?h = h0" by simp
  obtain pidxh where pidxh: "buildProductIndex_h ?h pas Map.empty = Inr pidxh"
    "pidx_rel h0 pidxh (buildProductIndex ps)"
    using buildProductIndex_h_agree [OF assms(2) ext pidx_rel_empty]
    unfolding buildProductIndex_def by blast
  have valid: "\<forall>k i. buildSellerIndex ?st k = Some i \<longrightarrow> i < length ?st"
    using buildSellerIndex_Some by blast
  have rel: "\<forall>k. (map_option ((+) (length h0)) \<circ> buildSellerIndex ?st) k
      = map_option ((+) (length h0)) (buildSellerIndex ?st k)"
    by simp
  have hrun: "aggregate_h v cr [length h0..<length h0 + length ss] p r ?h
      = forEach_h (processRecord_h v cr (map_option ((+) (length h0)) \<circ> buildSellerIndex ?st) pidxh)
          ras ?h"
    unfolding aggregate_h_def Let_def sidx
    using loadArray_append [OF assms(1), of "map freshStats ?st"]
      loadArray_append [OF assms(3), of "map freshStats ?st"] pidxh(1)
    by simp
  have len: "length ?st = length ss" by simp
  show ?thesis
    unfolding hrun aggregate_def Let_def
    using forEach_records_agree [OF assms(4) pidxh(2) valid rel assms(5), where v = v and cr = cr]
    unfolding len .
qed


subsection \<open>Ranking\<close>

lemma insort_key_map: "map g (insort_key (\<lambda>x. f (g x)) x xs) = insort_key f (g x) (map g xs)"
  by (induction xs) simp_all

lemma sort_key_map: "map g (sort_key (\<lambda>x. f (g x)) xs) = sort_key f (map g xs)"
  by (induction xs) (simp_all add: insort_key_map)

lemma insort_key_cong_set:
  "f x = f' x \<Longrightarrow> (\<forall>y \<in> set xs. f y = f' y) \<Longrightarrow> insort_key f x xs = insort_key f' x xs"
  by (induction xs) simp_all

lemma sort_key_cong_set: "(\<forall>y \<in> set xs. f y = f' y) \<Longrightarrow> sort_key f xs = sort_key f' xs"
proof (induction xs)
  case Nil
  then show ?case by simp
next
  case (Cons x xs)
  then have "sort_key f xs = sort_key f' xs" by simp
  moreover have "insort_key f x (sort_key f' xs) = insort_key f' x (sort_key f' xs)"
    using Cons.prems by (intro insort_key_cong_set) simp_all
  ultimately show ?case by simp
qed

lemma sortDesc_agree:
  "map (\<lambda>a. st ! (a - length h0))
       (sortDesc (profitAt (h0 @ map freshStats st)) [length h0..<length h0 + length st])
   = sortDesc st_profit st"
proof -
  let ?addrs = "[length h0..<length h0 + length st]"
  let ?at = "\<lambda>a. st ! (a - length h0)"
  have key: "\<forall>a \<in> set ?addrs. - profitAt (h0 @ map freshStats st) a = - st_profit (?at a)"
  proof
    fix a assume "a \<in> set ?addrs"
    then obtain i where i: "a = length h0 + i" "i < length st"
      by (metis add_diff_inverse_nat atLeastLessThan_iff nat_add_left_cancel_less not_le set_upt)
    show "- profitAt (h0 @ map freshStats st) a = - st_profit (?at a)"
      using load_fresh [OF i(2), of h0] i by (simp add: profitAt_def)
  qed
  have all: "map ?at ?addrs = st"
    by (rule nth_equalityI) simp_all
  have "map ?at (sortDesc (profitAt (h0 @ map freshStats st)) ?addrs)
      = map ?at (sort_key (\<lambda>a. - st_profit (?at a)) ?addrs)"
    unfolding sortDesc_def using sort_key_cong_set [OF key] by simp
  also have "\<dots> = sort_key (\<lambda>s. - st_profit s) (map ?at ?addrs)"
    by (rule sort_key_map)
  finally show ?thesis unfolding all sortDesc_def .
qed

lemma load_update:
  "load (h[a := c]) b = (if b = a \<and> a < length h then Some c else load h b)"
  by (simp add: load_def)

lemma forEach_assign_agree:
  assumes "distinct (map snd ias)"
    and "\<forall>ia \<in> set ias. load h (snd ia) = Some (StatsCell (sat (snd ia)) None None)"
  shows "\<exists>h'. forEach_h (assignBonus_h v (Function f) t) ias h = (None, h')
    \<and> (\<forall>ia \<in> set ias. load h' (snd ia)
          = Some (StatsCell (sat (snd ia))
              (Some (case v of
                       MainJs \<Rightarrow> f (int (fst ia)) (int t) (sat (snd ia))
                     | Part000 \<Rightarrow> toFixed2 (f (int (fst ia)) (int t) (sat (snd ia)))))
              (Some (topProducts (sat (snd ia))))))
    \<and> (\<forall>b. b \<notin> snd ` set ias \<longrightarrow> load h' b = load h b)"
  using assms
proof (induction ias arbitrary: h)
  case Nil
  then show ?case by simp
next
  case (Cons ia ias)
  let ?c = "StatsCell (sat (snd ia))
      (Some (case v of
               MainJs \<Rightarrow> f (int (fst ia)) (int t) (sat (snd ia))
             | Part000 \<Rightarrow> toFixed2 (f (int (fst ia)) (int t) (sat (snd ia)))))
      (Some (topProducts (sat (snd ia))))"
  let ?h1 = "h[snd ia := ?c]"
  have l: "load h (snd ia) = Some (StatsCell (sat (snd ia)) None None)"
    using Cons.prems(2) by simp
  have step: "assignBonus_h v (Function f) t ia h = (None, ?h1)"
    using l by (simp add: assignBonus_h_def Let_def)
  have notin: "snd ia \<notin> snd ` set ias" using Cons.prems(1) by auto
  have d: "distinct (map snd ias)" using Cons.prems(1) by simp
  have pre: "\<forall>x \<in> set ias. load ?h1 (snd x) = Some (StatsCell (sat (snd x)) None None)"
  proof
    fix x assume x: "x \<in> set ias"
    then have "snd x \<in> snd ` set ias" by (rule imageI)
    then have "snd x \<noteq> snd ia" using notin by metis
    then show "load ?h1 (snd x) = Some (StatsCell (sat (snd x)) None None)"
      using Cons.prems(2) x by (simp add: load_update)
  qed
  from Cons.IH [OF d pre] obtain h' where h':
    "forEach_h (assignBonus_h v (Function f) t) ias ?h1 = (None, h')"
    "\<forall>x \<in> set ias. load h' (snd x)
          = Some (StatsCell (sat (snd x))
              (Some (case v of
                       MainJs \<Rightarrow> f (int (fst x)) (int t) (sat (snd x))
                     | Part000 \<Rightarrow> toFixed2 (f (int (fst x)) (int t) (sat (snd x)))))
              (Some (topProducts (sat (snd x)))))"
    "\<forall>b. b \<notin> snd ` set ias \<longrightarrow> load h' b = load ?h1 b"
    by blast
  have here: "load h' (snd ia) = Some ?c"
    using h'(3) notin load_Some_less [OF l] by (simp add: load_update)
  have run: "forEach_h (assignBonus_h v (Function f) t) (ia # ias) h = (None, h')"
    using step h'(1) by simp
  have others: "\<forall>b. b \<notin> snd ` set (ia # ias) \<longrightarrow> load h' b = load h b"
    using h'(3) by (simp add: load_update)
  show ?case using run here h'(2) others by auto
qed


lemma mapE_pointwise:
  "(\<forall>j<length xs. f (xs ! j) = Inr (g j)) \<Longrightarrow> mapE f xs = Inr (map g [0..<length xs])"
proof (induction xs arbitrary: g)
  case Nil
  then show ?case by simp
next
  case (Cons x xs)
  have "\<forall>j<length xs. f (xs ! j) = Inr (g (Suc j))" using Cons.prems by auto
  then have "mapE f xs = Inr (map (\<lambda>j. g (Suc j)) [0..<length xs])" by (rule Cons.IH)
  moreover have "f x = Inr (g 0)" using Cons.prems by auto
  moreover have "map g [0..<length (x # xs)] = g 0 # map (\<lambda>j. g (Suc j)) [0..<length xs]"
    by (simp add: upt_conv_Cons map_Suc_upt [symmetric] del: upt_Suc)
  ultimately show ?case by simp
qed

lemma forEach_h_first_error:
  "xs \<noteq> [] \<Longrightarrow> (\<And>x t. f x t = (Some e, t)) \<Longrightarrow> forEach_h f xs h = (Some e, h)"
  by (cases xs) simp_all

lemma mapE_first_error: "xs \<noteq> [] \<Longrightarrow> (\<And>x. f x = Inl e) \<Longrightarrow> mapE f xs = Inl e"
  by (cases xs) simp_all

lemma rank_not_function:
  assumes "\<not> isFunction cb"
  shows "fst (rankSellers_h v cb [length h0..<length h0 + length st] (h0 @ map freshStats st))
   = (case rankSellers v cb st of
        Inl e \<Rightarrow> Inl e
      | Inr rankedStats \<Rightarrow> Inr (map buildReport rankedStats))"
proof (cases "st = []")
  case True
  then show ?thesis by (simp add: rankSellers_h_def rankSellers_def sortDesc_def)
next
  case False
  have c: "call cb = Inl TypeError" using assms by (cases cb) (simp_all add: call_def isFunction_def)
  let ?sorted = "sortDesc (profitAt (h0 @ map freshStats st)) [length h0..<length h0 + length st]"
  have "length (enumerate 0 ?sorted) \<noteq> 0" using False by simp
  then have ne: "enumerate 0 ?sorted \<noteq> []" by (metis length_0_conv)
  have "length (enumerate 0 (sortDesc st_profit st)) \<noteq> 0" using False by simp
  then have ne': "enumerate 0 (sortDesc st_profit st) \<noteq> []" by (metis length_0_conv)
  have h: "forEach_h (assignBonus_h v cb (length ?sorted)) (enumerate 0 ?sorted)
      (h0 @ map freshStats st) = (Some TypeError, h0 @ map freshStats st)"
    using ne by (rule forEach_h_first_error) (simp add: assignBonus_h_def c)
  have v: "mapE (assignBonus v cb (length (sortDesc st_profit st))) (enumerate 0 (sortDesc st_profit st))
      = Inl TypeError"
    using ne' by (rule mapE_first_error) (simp add: assignBonus_def c)
  show ?thesis unfolding rankSellers_h_def rankSellers_def Let_def h v by simp
qed

lemma rankSellers_agree:
  "fst (rankSellers_h v cb [length h0..<length h0 + length st] (h0 @ map freshStats st))
   = (case rankSellers v cb st of
        Inl e \<Rightarrow> Inl e
      | Inr rankedStats \<Rightarrow> Inr (map buildReport rankedStats))"
proof -
  let ?h = "h0 @ map freshStats st"
  let ?addrs = "[length h0..<length h0 + length st]"
  let ?sat = "\<lambda>a. st ! (a - length h0)"
  let ?sorted = "sortDesc (profitAt ?h) ?addrs"
  let ?vsorted = "sortDesc st_profit st"
  have vs: "map ?sat ?sorted = ?vsorted" by (rule sortDesc_agree)
  have len: "length ?sorted = length st" by simp
  show ?thesis
  proof (cases cb)
    case (Function f)
    let ?B = "\<lambda>i s. (case v of
        MainJs \<Rightarrow> f (int i) (int (length st)) s
      | Part000 \<Rightarrow> toFixed2 (f (int i) (int (length st)) s))"
    have d: "distinct (map snd (enumerate 0 ?sorted))" by (simp add: sortDesc_def)
    have cells: "\<forall>ia \<in> set (enumerate 0 ?sorted).
        load ?h (snd ia) = Some (StatsCell (?sat (snd ia)) None None)"
    proof
      fix ia assume "ia \<in> set (enumerate 0 ?sorted)"
      then have "snd ia \<in> set ?sorted" by (metis imageI map_snd_enumerate set_map)
      then have "snd ia \<in> set ?addrs" by simp
      then obtain i where i: "snd ia = length h0 + i" "i < length st"
        by (metis add_diff_inverse_nat atLeastLessThan_iff nat_add_left_cancel_less not_le set_upt)
      show "load ?h (snd ia) = Some (StatsCell (?sat (snd ia)) None None)"
        using load_fresh [OF i(2), of h0] i by simp
    qed
    from forEach_assign_agree [OF d cells, of v f "length st"] obtain h' where h':
      "forEach_h (assignBonus_h v (Function f) (length st)) (enumerate 0 ?sorted) ?h = (None, h')"
      "\<forall>ia \<in> set (enumerate 0 ?sorted). load h' (snd ia)
          = Some (StatsCell (?sat (snd ia)) (Some (?B (fst ia) (?sat (snd ia))))
              (Some (topProducts (?sat (snd ia)))))"
      by blast
    have each: "\<forall>j<length ?sorted. buildReport_h h' (?sorted ! j)
        = Inr (buildReport \<lparr>rk_stats = ?vsorted ! j, rk_bonus = ?B j (?vsorted ! j),
            rk_top_products = topProducts (?vsorted ! j)\<rparr>)"
    proof (intro allI impI)
      fix j assume j: "j < length ?sorted"
      then have mem: "(j, ?sorted ! j) \<in> set (enumerate 0 ?sorted)"
        by (simp add: in_set_enumerate_eq)
      have "load h' (?sorted ! j)
          = Some (StatsCell (?sat (?sorted ! j)) (Some (?B j (?sat (?sorted ! j))))
              (Some (topProducts (?sat (?sorted ! j)))))"
        using h'(2) [rule_format, OF mem] by (cases v) simp_all
      moreover have "?sat (?sorted ! j) = ?vsorted ! j"
        using vs j by (metis nth_map)
      ultimately show "buildReport_h h' (?sorted ! j)
        = Inr (buildReport \<lparr>rk_stats = ?vsorted ! j, rk_bonus = ?B j (?vsorted ! j),
            rk_top_products = topProducts (?vsorted ! j)\<rparr>)"
        by (cases v) (simp_all add: buildReport_h_def)
    qed
    have hrep: "mapE (buildReport_h h') ?sorted
        = Inr (map (\<lambda>j. buildReport \<lparr>rk_stats = ?vsorted ! j, rk_bonus = ?B j (?vsorted ! j),
            rk_top_products = topProducts (?vsorted ! j)\<rparr>) [0..<length ?sorted])"
      using each by (rule mapE_pointwise)
    have hrun: "fst (rankSellers_h v cb ?addrs ?h)
        = Inr (map (\<lambda>j. buildReport \<lparr>rk_stats = ?vsorted ! j, rk_bonus = ?B j (?vsorted ! j),
            rk_top_products = topProducts (?vsorted ! j)\<rparr>) [0..<length st])"
      unfolding rankSellers_h_def Let_def len Function h'(1) using hrep len by simp
    have vrun: "rankSellers v cb st = Inr (map (\<lambda>is.
         \<lparr>rk_stats = snd is, rk_bonus = ?B (fst is) (snd is),
          rk_top_products = topProducts (snd is)\<rparr>) (enumerate 0 ?vsorted))"
      unfolding Function by (rule rankSellers_Function)
    have "map buildReport (map (\<lambda>is.
         \<lparr>rk_stats = snd is, rk_bonus = ?B (fst is) (snd is),
          rk_top_products = topProducts (snd is)\<rparr>) (enumerate 0 ?vsorted))
        = map (\<lambda>j. buildReport \<lparr>rk_stats = ?vsorted ! j, rk_bonus = ?B j (?vsorted ! j),
            rk_top_products = topProducts (?vsorted ! j)\<rparr>) [0..<length st]"
      by (rule nth_equalityI) (simp_all add: nth_enumerate_eq cong: version.case_cong)
    then show ?thesis unfolding hrun vrun by simp
  qed (rule rank_not_function, simp add: isFunction_def)+
qed



subsection \<open>The whole run\<close>

theorem store_run_agrees:
  assumes "absData h data = Some D" and "hasBuiltins h"
  shows "fst (analyzeSalesData_h v h data opts) = analyzeSalesData v D opts"
proof (cases "checkData D")
  case (Inl e)
  then have "checkData_h h data = Inl e" using checkData_agree [OF assms(1)] by simp
  then show ?thesis using Inl by (simp add: analyzeSalesData_h_def analyzeSalesData_def)
next
  case (Inr t)
  obtain ss ps rs where t: "t = (ss, ps, rs)" by (cases t)
  from checkData_agree [OF assms(1)] Inr t obtain s p r sas pas ras where
    c: "checkData_h h data = Inr (s, p, r)"
    and ls: "loadArray h s = Some sas" and as: "those (map (absSeller h) sas) = Some ss"
    and lp: "loadArray h p = Some pas" and ap: "those (map (absProduct h) pas) = Some ps"
    and lr: "loadArray h r = Some ras" and ar: "those (map (absRecord h) ras) = Some rs"
    by auto
  show ?thesis
  proof (cases "checkOptions v opts")
    case (Inl e)
    then show ?thesis using Inr t c by (simp add: analyzeSalesData_h_def analyzeSalesData_def)
  next
    case strategies: (Inr strategies)
    have cs: "createStats sas h
        = (Inr [length h..<length h + length ss], h @ map freshStats (map initStats ss))"
      using createStats_agree [OF as, of h] by simp
    from aggregate_agree [OF lp ap lr ar assms(2), of v "calculateRevenue strategies" ss]
    obtain h1 where h1: "list_all2 keeps h h1"
      "\<forall>st'. aggregate v (calculateRevenue strategies) ss ps rs = Inr st' \<longrightarrow>
            aggregate_h v (calculateRevenue strategies) [length h..<length h + length ss] p r
                (h @ map freshStats (map initStats ss))
              = (None, h1 @ map freshStats st') \<and> length st' = length ss"
      "\<forall>e. aggregate v (calculateRevenue strategies) ss ps rs = Inl e \<longrightarrow>
            fst (aggregate_h v (calculateRevenue strategies) [length h..<length h + length ss] p r
                (h @ map freshStats (map initStats ss))) = Some e"
      by blast
    have len1: "length h1 = length h" using h1(1) by (simp add: list_all2_lengthD)
    show ?thesis
    proof (cases "aggregate v (calculateRevenue strategies) ss ps rs")
      case (Inl e)
      then have "fst (aggregate_h v (calculateRevenue strategies) [length h..<length h + length ss]
          p r (h @ map freshStats (map initStats ss))) = Some e"
        using h1(3) by simp
      then show ?thesis
        using Inr t c strategies ls cs Inl
        by (auto simp: analyzeSalesData_h_def analyzeSalesData_def split: prod.splits option.splits)
    next
      case st: (Inr st)
      then have hag: "aggregate_h v (calculateRevenue strategies) [length h..<length h + length ss]
          p r (h @ map freshStats (map initStats ss)) = (None, h1 @ map freshStats st)"
        and len: "length st = length ss"
        using h1(2) by simp_all
      have "fst (analyzeSalesData_h v h data opts)
          = fst (rankSellers_h v (calculateBonus strategies) [length h1..<length h1 + length st]
              (h1 @ map freshStats st))"
        using c strategies ls cs hag len len1 by (simp add: analyzeSalesData_h_def)
      also have "\<dots> = (case rankSellers v (calculateBonus strategies) st of
            Inl e \<Rightarrow> Inl e
          | Inr rankedStats \<Rightarrow> Inr (map buildReport rankedStats))"
        by (rule rankSellers_agree)
      also have "\<dots> = analyzeSalesData v D opts"
        using Inr t strategies st by (simp add: analyzeSalesData_def)
      finally show ?thesis .
    qed
  qed
qed


lemma store_run_agrees_example:
  "hasBuiltins (ex_store @ ex_builtins)
   \<and> absData (ex_store @ ex_builtins) (Some 0) = Some (Some
     \<lparr>sellers = Array [\<lparr>sel_id = ''s1'', sel_first_name = ''Ann'', sel_last_name = ''Lee''\<rparr>,
                        \<lparr>sel_id = ''s2'', sel_first_name = ''Bob'', sel_last_name = ''Ray''\<rparr>],
      products = Array [\<lparr>prod_sku = ''A'', prod_purchase_price = 10\<rparr>],
      purchase_records = Array
        [\<lparr>rec_seller_id = ''s2'', rec_total_amount = 100, rec_items =
            [\<lparr>item_sku = ''A'', item_quantity = 2, item_sale_price = 30, item_discount = 10\<rparr>,
             \<lparr>item_sku = ''Z'', item_quantity = 1, item_sale_price = 5, item_discount = 0\<rparr>]\<rparr>,
         \<lparr>rec_seller_id = ''s9'', rec_total_amount = 70, rec_items =
            [\<lparr>item_sku = ''A'', item_quantity = 2, item_sale_price = 30, item_discount = 10\<rparr>]\<rparr>]\<rparr>)"
  by code_simp

end
